(* ===== verification/Prelude.thy ===== *)
theory Prelude
  imports Main "HOL-Library.Word"
begin

text \<open>
  Shared vocabulary of the development: machine integers and byte strings, the exceptions the
  C++ code throws as a datatype, a result monad on sums, and little-endian loads and stores.

  A C++ \<^verbatim>\<open>std::string\<close> or \<^verbatim>\<open>std::string_view\<close> that carries wire data is a list of 8-bit words.
  Object sizes (\<^verbatim>\<open>size()\<close> of a string or a vector) are \<open>nat\<close>; integers that are read from or
  written to the wire keep their width.
\<close>

unbundle bit_operations_syntax

section \<open>Types\<close>

type_synonym byte = "8 word"
type_synonym bytes = "byte list"
type_synonym u16 = "16 word"
type_synonym u32 = "32 word"
type_synonym u64 = "64 word"

text \<open>The error classes of \<^verbatim>\<open>sirius::offload::substrait_error_code\<close>, as the switch of
  \<^verbatim>\<open>substrait_error\<close> in \<^verbatim>\<open>flight_runtime.cpp\<close> lists them.\<close>

datatype substrait_error_code =
    UNSUPPORTED_PLAN
  | INVALID_PLAN
  | AUTHENTICATION_FAILED
  | READ_RESOLUTION_FAILED
  | CANCELLED
  | EXECUTION_FAILED
  | GPU_DEVICE_UNAVAILABLE

text \<open>The C++ exceptions the sidecar throws, each with its \<^verbatim>\<open>what()\<close> text.  \<open>Undefined_behaviour\<close> is not
  an exception: the models return it where the C++ code would read outside an object, so that memory
  safety is the absence of this value.\<close>

datatype exn =
    Invalid_argument string
  | Runtime_error string
  | Overflow_error string
  | Logic_error string
  | Substrait_error substrait_error_code string
  | Undefined_behaviour string

type_synonym 'a res = "exn + 'a"

text \<open>The \<^verbatim>\<open>arrow::Status\<close> values that the Flight code returns: the classes it constructs, and
  \<open>St_Other\<close> for a failure that Arrow itself hands back.\<close>

datatype flight_code =
    F_Internal | F_TimedOut | F_Cancelled | F_Unauthorized | F_Unavailable | F_Failed

datatype arrow_status =
    St_OK
  | St_Invalid string
  | St_KeyError string
  | St_NotImplemented string
  | St_Cancelled string
  | St_Flight flight_code string string
  | St_Other string

text \<open>\<^verbatim>\<open>arrow::Result<T>\<close>: a status or a value.\<close>

type_synonym 'a arrow_result = "arrow_status + 'a"

section \<open>Collections of rules\<close>

named_theorems res_simps \<open>evaluation of the result monad\<close>
named_theorems codec_simps \<open>lengths and inverse laws of the byte codecs\<close>
named_theorems step_simps \<open>unfolding of state-machine operations\<close>

section \<open>The result monad\<close>

definition bindR :: "'e + 'a \<Rightarrow> ('a \<Rightarrow> 'e + 'b) \<Rightarrow> 'e + 'b" where
  "bindR m f = (case m of Inl e \<Rightarrow> Inl e | Inr x \<Rightarrow> f x)"

definition is_ok :: "'e + 'a \<Rightarrow> bool" where
  "is_ok m = (case m of Inl _ \<Rightarrow> False | Inr _ \<Rightarrow> True)"

fun mapR :: "('a \<Rightarrow> 'e + 'b) \<Rightarrow> 'a list \<Rightarrow> 'e + 'b list" where
  "mapR f [] = Inr []"
| "mapR f (x # xs) = bindR (f x) (\<lambda>y. bindR (mapR f xs) (\<lambda>ys. Inr (y # ys)))"

text \<open>A loop that carries a state and may throw.\<close>

fun foldR :: "('a \<Rightarrow> 's \<Rightarrow> 'e + 's) \<Rightarrow> 'a list \<Rightarrow> 's \<Rightarrow> 'e + 's" where
  "foldR f [] s = Inr s"
| "foldR f (x # xs) s = bindR (f x s) (foldR f xs)"

lemma bindR_Inl [simp, res_simps]: "bindR (Inl e) f = Inl e"
  by (simp add: bindR_def)

lemma bindR_Inr [simp, res_simps]: "bindR (Inr x) f = f x"
  by (simp add: bindR_def)

lemma is_ok_simps [simp, res_simps]: "\<not> is_ok (Inl e)" "is_ok (Inr x)"
  by (simp_all add: is_ok_def)

lemma is_ok_iff: "is_ok m \<longleftrightarrow> (\<exists>x. m = Inr x)"
  by (cases m) auto

lemma case_Inr_iff: "(case m of Inl _ \<Rightarrow> False | Inr x \<Rightarrow> P x) \<longleftrightarrow> (\<exists>x. m = Inr x \<and> P x)"
  by (cases m) auto

lemma bindR_Inr_iff: "bindR m f = Inr y \<longleftrightarrow> (\<exists>x. m = Inr x \<and> f x = Inr y)"
  by (cases m) auto

lemma bindR_Inl_iff: "bindR m f = Inl e \<longleftrightarrow> m = Inl e \<or> (\<exists>x. m = Inr x \<and> f x = Inl e)"
  by (cases m) auto

lemma bindR_InrE [elim!]:
  assumes "bindR m f = Inr y"
  obtains x where "m = Inr x" and "f x = Inr y"
  using assms by (auto simp: bindR_Inr_iff)

lemma bindR_cong [fundef_cong]:
  assumes "m = m'" and "\<And>x. m' = Inr x \<Longrightarrow> f x = g x"
  shows "bindR m f = bindR m' g"
  using assms by (cases m') auto

lemma bindR_if [res_simps]: "bindR (if c then m else n) f = (if c then bindR m f else bindR n f)"
  by simp

lemma mapR_length: "mapR f xs = Inr ys \<Longrightarrow> length ys = length xs"
  by (induction xs arbitrary: ys) auto

lemma mapR_nth: "mapR f xs = Inr ys \<Longrightarrow> i < length xs \<Longrightarrow> f (xs ! i) = Inr (ys ! i)"
proof (induction xs arbitrary: ys i)
  case (Cons x xs)
  then show ?case by (cases i) auto
qed simp

lemma mapR_Inr: "(\<And>x. x \<in> set xs \<Longrightarrow> f x = Inr (g x)) \<Longrightarrow> mapR f xs = Inr (map g xs)"
  by (induction xs) auto

lemma foldR_append: "foldR f (xs @ ys) s = bindR (foldR f xs s) (foldR f ys)"
proof (induction xs arbitrary: s)
  case (Cons x xs)
  then show ?case by (cases "f x s") simp_all
qed simp

text \<open>An invariant of such a loop over row numbers.\<close>

lemma foldR_invariant:
  assumes "foldR f [0..<n] s = Inr t" and "P 0 s"
    and "\<And>i u v. i < n \<Longrightarrow> P i u \<Longrightarrow> f i u = Inr v \<Longrightarrow> P (Suc i) v"
  shows "P n t"
  using assms
proof (induction n arbitrary: t)
  case (Suc n)
  from Suc.prems(1) obtain u where u: "foldR f [0..<n] s = Inr u" "f n u = Inr t"
    by (auto simp: foldR_append)
  have "P n u" by (rule Suc.IH [OF u(1) Suc.prems(2)]) (use Suc.prems(3) in auto)
  with u(2) Suc.prems(3) show ?case by simp
qed simp

section \<open>Byte strings\<close>

text \<open>\<^verbatim>\<open>std::to_string\<close> of a natural number.\<close>

fun to_string :: "nat \<Rightarrow> string" where
  "to_string n = (if n < 10 then [char_of (48 + n)] else to_string (n div 10) @ [char_of (48 + n mod 10)])"

declare to_string.simps [simp del]

text \<open>The bytes of a C++ string literal.\<close>

definition bytes_of :: "string \<Rightarrow> bytes" where
  "bytes_of s = map of_char s"

lemma length_bytes_of [simp]: "length (bytes_of s) = length s"
  by (simp add: bytes_of_def)

lemma bytes_of_Nil_iff [simp]: "bytes_of s = [] \<longleftrightarrow> s = []"
  by (simp add: bytes_of_def)

section \<open>Words with small values\<close>

lemma unat_drop_bit_div: "unat (drop_bit n (v :: 'a::len word)) = unat v div 2 ^ n"
  by (simp only: unat_drop_bit_eq drop_bit_eq_div [of n "unat v"])

lemma unat_u64_less: "unat (v :: u64) < 2 ^ 64"
  using unsigned_less [of v, where 'a = nat] by simp

lemma unat_of_nat_u64: "n < 2 ^ 64 \<Longrightarrow> unat (of_nat n :: u64) = n"
  by (simp add: unat_of_nat)

lemma unat_of_nat_u32: "n < 2 ^ 32 \<Longrightarrow> unat (of_nat n :: u32) = n"
  by (simp add: unat_of_nat)

lemma unat_less_not_bit:
  fixes v :: "'a::len word"
  assumes "unat v < 2 ^ n" and "n \<le> k"
  shows "\<not> bit v k"
proof -
  have "unat v < 2 ^ k"
    by (rule order_less_le_trans [OF assms(1)]) (simp add: assms(2))
  then have "unat (drop_bit k v) = 0" by (simp only: unat_drop_bit_div) simp
  then have "drop_bit k v = 0" by (simp add: unat_eq_0)
  then show ?thesis by (simp add: bit_iff_odd_drop_bit)
qed

section \<open>Little-endian integers\<close>

text \<open>
  \<open>load_le n bs off\<close> is the loop
  \<^verbatim>\<open>for (i = 0; i < n; ++i) value |= T(bytes[off + i]) << (i * 8)\<close> that the wire code uses for every
  fixed-width load; \<open>store_le n v\<close> is the list of bytes \<^verbatim>\<open>(v >> (i * 8)) & 0xff\<close> for \<open>i < n\<close>.
\<close>

definition load_le :: "nat \<Rightarrow> bytes \<Rightarrow> nat \<Rightarrow> 'a::len word" where
  "load_le n bs off = fold (\<lambda>i v. v OR push_bit (i * 8) (ucast (bs ! (off + i)))) [0..<n] 0"

definition store_le :: "nat \<Rightarrow> 'a::len word \<Rightarrow> bytes" where
  "store_le n v = map (\<lambda>i. ucast (drop_bit (i * 8) v AND 0xff)) [0..<n]"

lemma length_store_le [simp, codec_simps]: "length (store_le n v) = n"
  by (simp add: store_le_def)

lemma load_le_Suc:
  "(load_le (Suc n) bs off :: 'a::len word) =
     load_le n bs off OR push_bit (n * 8) (ucast (bs ! (off + n)))"
  by (simp add: load_le_def)

lemma bit_load_le:
  "bit (load_le n bs off :: 'a::len word) k \<longleftrightarrow>
     k < LENGTH('a) \<and> k < n * 8 \<and> bit (bs ! (off + k div 8)) (k mod 8)"
proof (induction n)
  case 0
  then show ?case by (simp add: load_le_def)
next
  case (Suc n)
  have high: "bit (bs ! (off + n)) (k - n * 8) \<longleftrightarrow>
      k < Suc n * 8 \<and> bit (bs ! (off + k div 8)) (k mod 8)" if "n * 8 \<le> k"
  proof (cases "k < Suc n * 8")
    case True
    with that obtain r where "k = n * 8 + r" and "r < 8"
      by (metis le_add_diff_inverse add_less_cancel_left mult_Suc add.commute)
    then show ?thesis by simp
  next
    case False
    then have "8 \<le> k - n * 8" by simp
    with False show ?thesis by (auto dest: bit_imp_le_length)
  qed
  show ?case
  proof (cases "n * 8 \<le> k")
    case True
    then show ?thesis
      by (auto simp: load_le_Suc bit_or_iff Suc bit_push_bit_iff bit_ucast_iff high)
  next
    case False
    then show ?thesis
      by (auto simp: load_le_Suc bit_or_iff Suc bit_push_bit_iff)
  qed
qed

lemma bit_0xff: "bit (0xff :: 'a::len word) j \<longleftrightarrow> j < 8 \<and> j < LENGTH('a)"
proof -
  have "(0xff :: 'a word) = mask 8" by (simp add: mask_eq_exp_minus_1)
  then show ?thesis by (simp only: bit_mask_iff possible_bit_word) auto
qed

lemma bit_store_le_nth:
  fixes v :: "'a::len word"
  assumes "i < n"
  shows "bit (store_le n v ! i) j \<longleftrightarrow> j < 8 \<and> bit v (i * 8 + j)"
proof -
  have "j < LENGTH('a)" if "bit v (i * 8 + j)"
    using bit_imp_le_length [OF that] by simp
  with assms show ?thesis
    by (auto simp: store_le_def bit_ucast_iff bit_and_iff bit_drop_bit_eq bit_0xff
        simp del: bit_numeral_word_iff)
qed

lemma load_le_store_le [simp, codec_simps]:
  fixes v :: "'a::len word"
  assumes "LENGTH('a) \<le> n * 8"
  shows "load_le n (store_le n v) 0 = v"
proof (rule bit_word_eqI)
  fix k assume k: "k < LENGTH('a)"
  with assms have "k div 8 < n" by (simp add: less_mult_imp_div_less)
  with k assms show "bit (load_le n (store_le n v) 0 :: 'a word) k = bit v k"
    by (simp add: bit_load_le bit_store_le_nth)
qed

lemma load_le_append1:
  "off + n \<le> length xs \<Longrightarrow> load_le n (xs @ ys) off = load_le n xs off"
  by (rule bit_word_eqI) (auto simp: bit_load_le nth_append less_mult_imp_div_less)

lemma load_le_append2:
  "load_le n (xs @ ys) (length xs + off) = load_le n ys off"
  by (simp add: load_le_def nth_append add.assoc)

text \<open>A load at an offset is a load from the start of the remaining bytes.\<close>

lemma load_le_drop:
  "off \<le> length bs \<Longrightarrow> load_le n bs off = load_le n (drop off bs) 0"
  by (simp add: load_le_def)

lemma load_le_take: "n \<le> length bs \<Longrightarrow> load_le n bs 0 = load_le n (take n bs) 0"
  using load_le_append1 [of 0 n "take n bs" "drop n bs"] by simp

lemma store_le_load_le:
  fixes bs :: bytes
  assumes "length bs = n" and "n * 8 \<le> LENGTH('a::len)"
  shows "store_le n (load_le n bs 0 :: 'a word) = bs"
proof (rule nth_equalityI)
  show "length (store_le n (load_le n bs 0 :: 'a word)) = length bs" using assms by simp
next
  fix i assume "i < length (store_le n (load_le n bs 0 :: 'a word))"
  then have i: "i < n" by simp
  show "store_le n (load_le n bs 0 :: 'a word) ! i = bs ! i"
  proof (rule bit_word_eqI)
    fix j assume "j < LENGTH(8)"
    then have j: "j < 8" by simp
    with i assms have "i * 8 + j < n * 8" and "i * 8 + j < LENGTH('a)" by auto
    with i j show "bit (store_le n (load_le n bs 0 :: 'a word) ! i) j = bit (bs ! i) j"
      by (simp add: bit_store_le_nth bit_load_le)
  qed
qed

text \<open>Every list of the right length is the encoding of exactly one word.\<close>

lemma store_le_inj:
  fixes v w :: "'a::len word"
  assumes "store_le n v = store_le n w" and "LENGTH('a) \<le> n * 8"
  shows "v = w"
  using assms by (metis load_le_store_le)

section \<open>Decimal digits\<close>

text \<open>What \<^verbatim>\<open>strtoull\<close> and \<^verbatim>\<open>from_chars\<close> make of digits in base ten.\<close>

definition is_digit :: "char \<Rightarrow> bool" where
  "is_digit ch \<longleftrightarrow> 48 \<le> (of_char ch :: nat) \<and> (of_char ch :: nat) \<le> 57"

definition digits_value :: "string \<Rightarrow> nat" where
  "digits_value ds = fold (\<lambda>d n. n * 10 + (of_char d - 48)) ds 0"

end
