(* ===== verification/Wire.thy ===== *)
theory Wire
  imports Prelude
begin

text \<open>
  The strict protobuf reader and the append functions of \<^verbatim>\<open>protocol.cpp\<close> (lines 58 to 137).

  A \<^verbatim>\<open>wire_reader\<close> is represented by the bytes it has not read yet, that is
  \<^verbatim>\<open>input_.substr(position_)\<close>: \<^verbatim>\<open>done()\<close> is emptiness, and reading returns the value together with
  the remaining bytes.  The second half of the theory states what every message loop of the
  protocol shares as a locale, and the unique decodability of a sequence of wire fields.
\<close>

section \<open>Reading\<close>

text \<open>\<^verbatim>\<open>wire_reader::varint\<close>: the loop over \<open>shift\<close> with its two overflow exits.\<close>

fun varint_loop :: "nat \<Rightarrow> u64 \<Rightarrow> bytes \<Rightarrow> (u64 \<times> bytes) res" where
  "varint_loop shift value bs =
     (if shift < 70 then
        (case bs of
           [] \<Rightarrow> Inl (Invalid_argument ''truncated protobuf varint'')
         | b # rest \<Rightarrow>
             if shift = 63 \<and> b > 1 then Inl (Invalid_argument ''overflowing protobuf varint'')
             else
               let value' = value OR push_bit shift (ucast (b AND 0x7f)) in
               if b AND 0x80 = 0 then Inr (value', rest)
               else varint_loop (shift + 7) value' rest)
      else Inl (Invalid_argument ''overflowing protobuf varint''))"

declare varint_loop.simps [simp del]

definition varint :: "bytes \<Rightarrow> (u64 \<times> bytes) res" where
  "varint bs = varint_loop 0 0 bs"

text \<open>\<^verbatim>\<open>wire_reader::bytes\<close>: a length-delimited field bounded by \<open>maximum\<close>.\<close>

definition read_bytes :: "nat \<Rightarrow> bytes \<Rightarrow> (bytes \<times> bytes) res" where
  "read_bytes maximum bs =
     bindR (varint bs) (\<lambda>(len, rest).
       if unat len > maximum \<or> unat len > length rest
       then Inl (Invalid_argument ''invalid protobuf bytes length'')
       else Inr (take (unat len) rest, drop (unat len) rest))"

text \<open>\<^verbatim>\<open>expect_field\<close>: the field number is the tag shifted by three and truncated to 32 bits;
  the updated \<open>seen\<close> mask is returned.\<close>

definition tag_field :: "u64 \<Rightarrow> u32" where
  "tag_field tag = ucast (drop_bit 3 tag)"

definition tag_wire :: "u64 \<Rightarrow> u32" where
  "tag_wire tag = ucast (tag AND 7)"

definition expect_field :: "u64 \<Rightarrow> u32 \<Rightarrow> u64 \<Rightarrow> u64 res" where
  "expect_field tag maximum seen =
     (let field = tag_field tag in
      if field = 0 \<or> field > maximum then Inl (Invalid_argument ''unknown protobuf field'')
      else
        let mask = push_bit (unat (field - 1)) 1 in
        if seen AND mask \<noteq> 0 then Inl (Invalid_argument ''duplicate protobuf field'')
        else Inr (seen OR mask))"

section \<open>Writing\<close>

function append_varint :: "bytes \<Rightarrow> u64 \<Rightarrow> bytes" where
  "append_varint out value =
     (if value \<ge> 0x80
      then append_varint (out @ [ucast ((value AND 0x7f) OR 0x80)]) (drop_bit 7 value)
      else out @ [ucast value])"
  by pat_completeness auto

termination append_varint
proof (relation "measure (\<lambda>(out, value). unat value)")
  fix out :: bytes and v :: u64
  assume "0x80 \<le> v"
  then have "unat v div 2 ^ 7 < unat v" by (simp add: word_le_nat_alt)
  then show "((out @ [ucast ((v AND 0x7f) OR 0x80)], drop_bit 7 v), out, v)
      \<in> measure (\<lambda>(out, value). unat value)"
    by (simp only: in_measure prod.case unat_drop_bit_div)
qed simp

declare append_varint.simps [simp del]

definition append_required_uint :: "bytes \<Rightarrow> u32 \<Rightarrow> u64 \<Rightarrow> bytes" where
  "append_required_uint out field value =
     append_varint (append_varint out (push_bit 3 (ucast field))) value"

definition append_uint :: "bytes \<Rightarrow> u32 \<Rightarrow> u64 \<Rightarrow> bytes" where
  "append_uint out field value =
     (if value = 0 then out
      else append_varint (append_varint out (push_bit 3 (ucast field))) value)"

definition append_bytes :: "bytes \<Rightarrow> u32 \<Rightarrow> bytes \<Rightarrow> bytes" where
  "append_bytes out field value =
     (if value = [] then out
      else append_varint (append_varint out (push_bit 3 (ucast field) OR 2)) (of_nat (length value))
           @ value)"

section \<open>Varints round trip\<close>

abbreviation varint_bytes :: "u64 \<Rightarrow> bytes" where
  "varint_bytes v \<equiv> append_varint [] v"

lemma append_varint_step:
  "v \<ge> 0x80 \<Longrightarrow>
     append_varint out v = append_varint (out @ [ucast ((v AND 0x7f) OR 0x80)]) (drop_bit 7 v)"
  by (simp add: append_varint.simps [of out v])

lemma append_varint_last: "\<not> v \<ge> 0x80 \<Longrightarrow> append_varint out v = out @ [ucast v]"
  by (simp add: append_varint.simps [of out v])

lemma unat_shift7: "v \<ge> 0x80 \<Longrightarrow> unat (drop_bit 7 v) < unat (v :: u64)"
  by (simp only: unat_drop_bit_div) (simp add: word_le_nat_alt)

lemma append_varint_append: "append_varint out v = out @ varint_bytes v"
proof (induction "unat v" arbitrary: v out rule: less_induct)
  case less
  show ?case
  proof (cases "v \<ge> 0x80")
    case True
    from less [OF unat_shift7 [OF True]]
    have IH: "append_varint out' (drop_bit 7 v) = out' @ varint_bytes (drop_bit 7 v)" for out' .
    show ?thesis
      by (simp only: append_varint_step [OF True, of out] append_varint_step [OF True, of "[]"]
          IH [of "out @ _"] IH [of "[] @ _"]) simp
  next
    case False
    then show ?thesis by (simp add: append_varint_last)
  qed
qed

lemma varint_bytes_step:
  "v \<ge> 0x80 \<Longrightarrow>
     varint_bytes v = ucast ((v AND 0x7f) OR 0x80) # varint_bytes (drop_bit 7 v)"
  by (simp add: append_varint_step [of v "[]"] append_varint_append [of "[_]"])

lemma varint_bytes_last: "\<not> v \<ge> 0x80 \<Longrightarrow> varint_bytes v = [ucast v]"
  by (simp add: append_varint_last)

lemma varint_bytes_nonempty [simp]: "varint_bytes v \<noteq> []"
  by (cases "v \<ge> 0x80") (simp_all add: varint_bytes_step varint_bytes_last)

text \<open>Bit-level facts about one group of seven bits.\<close>

lemma bit_0x7f: "bit (0x7f :: 'a::len word) j \<longleftrightarrow> j < 7 \<and> j < LENGTH('a)"
proof -
  have "(0x7f :: 'a word) = mask 7" by (simp add: mask_eq_exp_minus_1)
  then show ?thesis by (simp only: bit_mask_iff possible_bit_word) auto
qed

lemma bit_0x80: "bit (0x80 :: 'a::len word) j \<longleftrightarrow> j = 7 \<and> j < LENGTH('a)"
proof -
  have "(0x80 :: 'a word) = push_bit 7 1" by simp
  then show ?thesis by (simp only: bit_push_bit_iff bit_1_iff) auto
qed

lemma group_low: "ucast (ucast ((v AND 0x7f) OR 0x80) AND (0x7f :: byte)) = (v AND 0x7f :: u64)"
  by (rule bit_word_eqI)
    (auto simp: bit_ucast_iff bit_and_iff bit_or_iff bit_0x7f bit_0x80 simp del: bit_numeral_word_iff)

lemma group_more: "ucast (((v :: u64) AND 0x7f) OR 0x80) AND (0x80 :: byte) \<noteq> 0"
proof -
  have "bit (ucast ((v AND 0x7f) OR 0x80) AND (0x80 :: byte)) 7"
    by (simp add: bit_ucast_iff bit_and_iff bit_or_iff bit_0x7f bit_0x80 del: bit_numeral_word_iff)
  then show ?thesis by (metis bit_0_eq bot_apply bot_bool_def)
qed

lemma small_group:
  fixes v :: u64
  assumes "unat v < 2 ^ 7"
  shows "ucast (ucast v AND (0x7f :: byte)) = v" and "ucast v AND (0x80 :: byte) = 0"
proof -
  have high: "k < 7" if "bit v k" for k
    using unat_less_not_bit [OF assms, of k] that by (meson not_le)
  show "ucast (ucast v AND (0x7f :: byte)) = v"
  proof (rule bit_word_eqI)
    fix k
    show "bit (ucast (ucast v AND (0x7f :: byte)) :: u64) k = bit v k"
      by (auto simp: bit_ucast_iff bit_and_iff bit_0x7f simp del: bit_numeral_word_iff
          dest: high bit_imp_le_length)
  qed
  show "ucast v AND (0x80 :: byte) = 0"
    by (rule bit_word_eqI)
      (auto simp: bit_ucast_iff bit_and_iff bit_0x80 simp del: bit_numeral_word_iff dest: high)
qed

lemma varint_loop_append_varint:
  "\<lbrakk> shift \<le> 63; unat v < 2 ^ (64 - shift) \<rbrakk> \<Longrightarrow>
   varint_loop shift acc (varint_bytes v @ rest) = Inr (acc OR push_bit shift v, rest)"
proof (induction "unat v" arbitrary: v shift acc rule: less_induct)
  case less
  show ?case
  proof (cases "v \<ge> 0x80")
    case True
    then have big: "128 \<le> unat v" by (simp add: word_le_nat_alt)
    have shift: "shift + 7 \<le> 63"
    proof (rule ccontr)
      assume "\<not> shift + 7 \<le> 63"
      then have "64 - shift \<le> 7" by simp
      then have "(2::nat) ^ (64 - shift) \<le> 2 ^ 7" by (rule power_increasing) simp
      with less.prems big show False by simp
    qed
    have "unat v div 2 ^ 7 < 2 ^ (64 - (shift + 7))"
    proof -
      have "(2::nat) ^ (64 - shift) = 2 ^ (64 - (shift + 7)) * 2 ^ 7"
        using shift by (simp only: power_add [symmetric]) simp
      with less.prems show ?thesis by (simp add: less_mult_imp_div_less)
    qed
    then have "unat (drop_bit 7 v) < 2 ^ (64 - (shift + 7))" by (simp only: unat_drop_bit_div)
    from less.hyps [OF unat_shift7 [OF True] shift this]
    have IH: "varint_loop (shift + 7) a (varint_bytes (drop_bit 7 v) @ rest) =
        Inr (a OR push_bit (shift + 7) (drop_bit 7 v), rest)" for a .
    have join: "push_bit shift (v AND 0x7f) OR push_bit (shift + 7) (drop_bit 7 v) = push_bit shift v"
    proof (rule bit_word_eqI)
      fix n assume n: "n < LENGTH(64)"
      show "bit (push_bit shift (v AND 0x7f) OR push_bit (shift + 7) (drop_bit 7 v)) n =
          bit (push_bit shift v) n"
      proof (cases "shift + 7 \<le> n")
        case True
        then have "7 + (n - (shift + 7)) = n - shift" by simp
        with True n show ?thesis
          by (auto simp: bit_or_iff bit_push_bit_iff bit_and_iff bit_drop_bit_eq bit_0x7f
              simp del: bit_numeral_word_iff)
      next
        case False
        then show ?thesis
          by (auto simp: bit_or_iff bit_push_bit_iff bit_and_iff bit_0x7f
              simp del: bit_numeral_word_iff)
      qed
    qed
    show ?thesis
      using shift
      by (simp add: varint_bytes_step [OF True] varint_loop.simps [of shift] group_more group_low
          IH join or.assoc del: push_bit_and)
  next
    case False
    then have small: "unat v < 2 ^ 7" by (simp add: word_le_nat_alt)
    have "\<not> (ucast v :: byte) > 1" if "shift = 63"
    proof -
      from that less.prems have "unat v < 2" by simp
      then have "v = 0 \<or> v = 1" by (simp add: word_unat_eq_iff less_2_cases_iff)
      then show ?thesis by auto
    qed
    then show ?thesis
      using less.prems
      by (auto simp: varint_bytes_last [OF False] varint_loop.simps [of shift] small_group [OF small])
  qed
qed

theorem varint_append_varint: "varint (varint_bytes v @ rest) = Inr (v, rest)"
proof -
  have "unat v < 2 ^ (64 - 0)" using unat_u64_less [of v] by simp
  from varint_loop_append_varint [OF _ this, of 0 rest] show ?thesis
    by (simp add: varint_def)
qed

section \<open>Reading consumes a prefix and ignores what follows\<close>

text \<open>
  \<open>reads_prefix p\<close> is the contract of a reader method: a successful read consumes a prefix of its
  input, and the outcome does not depend on the bytes after that prefix.
\<close>

definition reads_prefix :: "(bytes \<Rightarrow> ('a \<times> bytes) res) \<Rightarrow> bool" where
  "reads_prefix p \<longleftrightarrow>
     (\<forall>bs x rest. p bs = Inr (x, rest) \<longrightarrow>
        (\<exists>pre. bs = pre @ rest \<and> (\<forall>ys. p (pre @ ys) = Inr (x, ys))))"

lemma reads_prefixD:
  assumes "reads_prefix p" and "p bs = Inr (x, rest)"
  obtains pre where "bs = pre @ rest" and "\<And>ys. p (pre @ ys) = Inr (x, ys)"
  using assms unfolding reads_prefix_def by blast

lemma reads_prefix_length:
  "reads_prefix p \<Longrightarrow> p bs = Inr (x, rest) \<Longrightarrow> length rest \<le> length bs"
  by (elim reads_prefixD) auto

lemma varint_loop_prefix:
  "varint_loop shift acc bs = Inr (x, rest) \<Longrightarrow>
     \<exists>pre. bs = pre @ rest \<and> pre \<noteq> [] \<and> shift + 7 * length pre \<le> 76 \<and>
       (\<forall>ys. varint_loop shift acc (pre @ ys) = Inr (x, ys))"
proof (induction shift acc bs rule: varint_loop.induct)
  case (1 shift acc bs)
  from "1.prems" obtain b bs' where bs: "bs = b # bs'" and shift: "shift < 70"
    by (auto simp: varint_loop.simps [of shift acc bs] split: if_splits list.splits)
  let ?acc = "acc OR push_bit shift (ucast (b AND 0x7f))"
  from "1.prems" have over: "\<not> (shift = 63 \<and> b > 1)"
    by (auto simp: bs varint_loop.simps [of shift acc "b # bs'"] split: if_splits)
  have unfold: "varint_loop shift acc (b # ys) =
      (if b AND 0x80 = 0 then Inr (?acc, ys) else varint_loop (shift + 7) ?acc ys)" for ys
    using over shift by (auto simp: varint_loop.simps [of shift acc] Let_def simp del: push_bit_and)
  show ?case
  proof (cases "b AND 0x80 = 0")
    case True
    with "1.prems" bs have "?acc = x" "bs' = rest" by (simp_all only: unfold) simp_all
    then show ?thesis using True shift bs by (intro exI [of _ "[b]"]) (simp add: unfold)
  next
    case False
    with "1.prems" bs have "varint_loop (shift + 7) ?acc bs' = Inr (x, rest)"
      by (simp only: unfold) simp
    from "1.IH" [OF shift bs over refl False this]
    obtain pre where "bs' = pre @ rest" "pre \<noteq> []" "shift + 7 + 7 * length pre \<le> 76"
      "\<forall>ys. varint_loop (shift + 7) ?acc (pre @ ys) = Inr (x, ys)" by blast
    then show ?thesis using False bs by (intro exI [of _ "b # pre"]) (simp add: unfold)
  qed
qed

lemma varint_prefix:
  assumes "varint bs = Inr (x, rest)"
  obtains pre where "bs = pre @ rest" and "pre \<noteq> []" and "length pre \<le> 10"
    and "\<And>ys. varint (pre @ ys) = Inr (x, ys)"
  using varint_loop_prefix [of 0 0 bs x rest] assms unfolding varint_def by auto

lemma reads_prefix_varint: "reads_prefix varint"
  unfolding reads_prefix_def by (metis varint_prefix)

lemma varint_shorter: "varint bs = Inr (x, rest) \<Longrightarrow> length rest < length bs"
  by (elim varint_prefix) auto

lemma varint_empty: "varint [] = Inl (Invalid_argument ''truncated protobuf varint'')"
  by (simp add: varint_def varint_loop.simps)

lemma read_bytes_prefix:
  assumes "read_bytes m bs = Inr (x, rest)"
  obtains pre where "bs = pre @ rest" and "length x \<le> m" and "length x < length pre"
    and "\<And>ys. read_bytes m (pre @ ys) = Inr (x, ys)"
proof -
  from assms obtain len r1 where v: "varint bs = Inr (len, r1)"
    and ok: "unat len \<le> m" "unat len \<le> length r1"
    and x: "x = take (unat len) r1" and rest: "rest = drop (unat len) r1"
    by (auto simp: read_bytes_def split: if_splits)
  from v obtain pre where pre: "bs = pre @ r1" "pre \<noteq> []" "\<And>ys. varint (pre @ ys) = Inr (len, ys)"
    using varint_prefix by blast
  have lx: "length x = unat len" using x ok by simp
  show ?thesis
  proof (rule that [of "pre @ x"])
    show "bs = (pre @ x) @ rest" using pre x rest by simp
    show "length x \<le> m" using lx ok by simp
    show "length x < length (pre @ x)" using pre by simp
    show "read_bytes m ((pre @ x) @ ys) = Inr (x, ys)" for ys
      using pre(3) ok lx by (simp add: read_bytes_def)
  qed
qed

lemma reads_prefix_read_bytes: "reads_prefix (read_bytes m)"
  unfolding reads_prefix_def by (metis read_bytes_prefix)

lemma read_bytes_bound: "read_bytes m bs = Inr (x, rest) \<Longrightarrow> length x \<le> m"
  by (elim read_bytes_prefix)

lemma read_bytes_append_varint:
  assumes "length x \<le> m" and "length x < 2 ^ 64"
  shows "read_bytes m (varint_bytes (of_nat (length x)) @ x @ rest) = Inr (x, rest)"
proof -
  have "unat (of_nat (length x) :: u64) = length x"
    using assms(2) by (rule unat_of_nat_u64)
  then show ?thesis using assms(1) by (simp add: read_bytes_def varint_append_varint)
qed

section \<open>Message loops\<close>

text \<open>
  Every parser of the protocol is the same loop: read a tag, let a per-message \<open>switch\<close> consume the
  field into the result, stop at the end of the input.  The locale names that contract: the loop
  equation, and that the switch reads a prefix.  Its lemmas serve all six messages.
\<close>

locale wire_message =
  fixes field_step :: "u64 \<Rightarrow> 's \<Rightarrow> bytes \<Rightarrow> ('s \<times> bytes) res"
    and message_loop :: "'s \<Rightarrow> bytes \<Rightarrow> 's res"
  assumes loop_unfold:
    "message_loop s bs =
       (if bs = [] then Inr s
        else bindR (varint bs) (\<lambda>(tag, bs1).
               bindR (field_step tag s bs1) (\<lambda>(s', bs2). message_loop s' bs2)))"
    and step_prefix: "reads_prefix (field_step tag s)"
begin

lemma loop_Nil: "message_loop s [] = Inr s"
  by (simp add: loop_unfold)

lemma loop_field:
  assumes "field_step tag s (body @ rest) = Inr (s', rest)"
  shows "message_loop s (varint_bytes tag @ body @ rest) = message_loop s' rest"
  using assms by (simp add: loop_unfold [of s "varint_bytes tag @ body @ rest"] varint_append_varint)

lemma loop_invariant:
  assumes "\<And>tag s bs s' bs'. \<lbrakk> P s; field_step tag s bs = Inr (s', bs') \<rbrakk> \<Longrightarrow> P s'"
    and "message_loop s bs = Inr s'" and "P s"
  shows "P s'"
  using assms(2,3)
proof (induction "length bs" arbitrary: s bs rule: less_induct)
  case less
  show ?case
  proof (cases "bs = []")
    case True
    with less.prems show ?thesis by (simp add: loop_Nil)
  next
    case False
    with less.prems(1) obtain tag bs1 s1 bs2
      where tag: "varint bs = Inr (tag, bs1)" and step: "field_step tag s bs1 = Inr (s1, bs2)"
        and rest: "message_loop s1 bs2 = Inr s'"
      by (subst (asm) loop_unfold) auto
    have "length bs2 < length bs"
      using varint_shorter [OF tag] reads_prefix_length [OF step_prefix step] by simp
    then show ?thesis using rest assms(1) [OF less.prems(2) step] by (rule less.hyps)
  qed
qed

lemma loop_append:
  "message_loop s bs = Inr s' \<Longrightarrow> message_loop s (bs @ ys) = message_loop s' ys"
proof (induction "length bs" arbitrary: s bs rule: less_induct)
  case less
  show ?case
  proof (cases "bs = []")
    case True
    with less.prems show ?thesis by (simp add: loop_Nil)
  next
    case False
    with less.prems obtain tag bs1 s1 bs2
      where tag: "varint bs = Inr (tag, bs1)" and step: "field_step tag s bs1 = Inr (s1, bs2)"
        and rest: "message_loop s1 bs2 = Inr s'"
      by (subst (asm) loop_unfold) auto
    from tag obtain p where p: "bs = p @ bs1" "p \<noteq> []" "\<And>ys. varint (p @ ys) = Inr (tag, ys)"
      using varint_prefix by blast
    from step_prefix step obtain q where q: "bs1 = q @ bs2"
      "\<And>ys. field_step tag s (q @ ys) = Inr (s1, ys)"
      by (rule reads_prefixD) blast
    have "message_loop s (bs @ ys) = message_loop s1 (bs2 @ ys)"
      using p q by (simp add: loop_unfold [of s "p @ _"])
    also have "\<dots> = message_loop s' ys"
      using p q rest by (intro less.hyps) auto
    finally show ?thesis .
  qed
qed

text \<open>A state in which the switch refuses every tag refuses every further byte.\<close>

lemma loop_sealed:
  assumes "\<And>tag bs. \<not> is_ok (field_step tag s bs)" and "bs \<noteq> []"
  shows "\<not> is_ok (message_loop s bs)"
proof
  assume "is_ok (message_loop s bs)"
  then obtain s' where "message_loop s bs = Inr s'" by (auto simp: is_ok_iff)
  with assms(2) obtain tag bs1 s1 bs2 where "field_step tag s bs1 = Inr (s1, bs2)"
    by (subst (asm) loop_unfold) auto
  with assms(1) [of tag bs1] show False by simp
qed

end

section \<open>The seen mask\<close>

lemma push_bit_1_exp: "push_bit n (1 :: u64) = 2 ^ n"
  by (simp add: push_bit_of_1)

lemma expect_field_ok:
  assumes "tag_field tag \<noteq> 0" and "tag_field tag \<le> m"
    and "\<not> bit seen (unat (tag_field tag) - 1)"
  shows "expect_field tag m seen = Inr (seen OR 2 ^ (unat (tag_field tag) - 1))"
  using assms
  by (simp add: expect_field_def Let_def push_bit_1_exp and_exp_eq_0_iff_not_bit unat_minus_one)

lemma expect_field_InrD:
  assumes "expect_field tag m seen = Inr seen'"
  shows "tag_field tag \<noteq> 0" and "tag_field tag \<le> m"
    and "\<not> bit seen (unat (tag_field tag) - 1)"
    and "seen' = seen OR 2 ^ (unat (tag_field tag) - 1)"
  using assms
  by (auto simp: expect_field_def Let_def push_bit_1_exp and_exp_eq_0_iff_not_bit unat_minus_one
      split: if_splits)

lemma expect_field_cases:
  "expect_field tag m seen = Inl e \<Longrightarrow>
     e = Invalid_argument ''unknown protobuf field'' \<or>
     e = Invalid_argument ''duplicate protobuf field''"
  by (auto simp: expect_field_def Let_def split: if_splits)

text \<open>Once all fields up to the maximum are marked, every further tag is refused.\<close>

lemma expect_field_sealed:
  assumes "unat m \<le> 64" and "seen = mask (unat m)"
  shows "\<not> is_ok (expect_field tag m seen)"
proof
  assume "is_ok (expect_field tag m seen)"
  then obtain seen' where e: "expect_field tag m seen = Inr seen'" by (auto simp: is_ok_iff)
  let ?n = "unat (tag_field tag) - 1"
  have "0 < unat (tag_field tag)" using expect_field_InrD(1) [OF e] by (simp add: unat_gt_0)
  moreover have "unat (tag_field tag) \<le> unat m"
    using expect_field_InrD(2) [OF e] by (simp add: word_le_nat_alt)
  ultimately have "?n < unat m" and "?n < 64" using assms(1) by auto
  then have "bit seen ?n" using assms(2) by (simp add: bit_mask_iff)
  with expect_field_InrD(3) [OF e] show False by simp
qed

section \<open>Wire fields and their unique decodability\<close>

text \<open>
  A wire field as the append functions emit it.  \<open>encode_field\<close> writes the field unconditionally;
  the append functions of the source leave out zero integers and empty strings.
\<close>

datatype wire_field = Uint_field u32 u64 | Bytes_field u32 bytes

primrec encode_field :: "wire_field \<Rightarrow> bytes" where
  "encode_field (Uint_field f v) = varint_bytes (push_bit 3 (ucast f)) @ varint_bytes v"
| "encode_field (Bytes_field f b) =
     varint_bytes (push_bit 3 (ucast f) OR 2) @ varint_bytes (of_nat (length b)) @ b"

primrec wf_field :: "wire_field \<Rightarrow> bool" where
  "wf_field (Uint_field f v) = True"
| "wf_field (Bytes_field f b) = (length b < 2 ^ 64)"

definition encode_fields :: "wire_field list \<Rightarrow> bytes" where
  "encode_fields fs = concat (map encode_field fs)"

lemma encode_fields_simps [simp]:
  "encode_fields [] = []"
  "encode_fields (f # fs) = encode_field f @ encode_fields fs"
  "encode_fields (fs @ gs) = encode_fields fs @ encode_fields gs"
  by (simp_all add: encode_fields_def)

lemma append_uint_encode:
  "append_uint out f v = out @ (if v = 0 then [] else encode_field (Uint_field f v))"
  "append_required_uint out f v = out @ encode_field (Uint_field f v)"
  "append_bytes out f b = out @ (if b = [] then [] else encode_field (Bytes_field f b))"
  by (simp_all add: append_uint_def append_required_uint_def append_bytes_def
      append_varint_append [of "out"] append_varint_append [of "out @ _"])

lemma bit_7: "bit (7 :: 'a::len word) j \<longleftrightarrow> j < 3 \<and> j < LENGTH('a)"
proof -
  have "(7 :: 'a word) = mask 3" by (simp add: mask_eq_exp_minus_1)
  then show ?thesis by (simp only: bit_mask_iff possible_bit_word) auto
qed

lemma bit_2: "bit (2 :: u64) j \<longleftrightarrow> j = 1"
  using bit_exp_iff [of 1 j, where 'a = u64] by auto

lemma tag_of_uint [simp]:
  "tag_field (push_bit 3 (ucast f)) = f" "push_bit 3 (ucast (f :: u32)) AND (7 :: u64) = 0"
  unfolding tag_field_def
  by (rule bit_word_eqI;
      auto simp: bit_ucast_iff bit_drop_bit_eq bit_push_bit_iff bit_and_iff bit_7
      simp del: bit_numeral_word_iff dest: bit_imp_le_length)+

lemma tag_of_bytes [simp]:
  "tag_field (push_bit 3 (ucast f) OR 2) = f" "(push_bit 3 (ucast (f :: u32)) OR 2) AND (7 :: u64) = 2"
  unfolding tag_field_def
  by (rule bit_word_eqI;
      auto simp: bit_ucast_iff bit_drop_bit_eq bit_push_bit_iff bit_and_iff bit_or_iff bit_7 bit_2
      simp del: bit_numeral_word_iff dest: bit_imp_le_length)+

lemma tag_wire_of [simp]:
  "tag_wire (push_bit 3 (ucast (f :: u32))) = 0" "tag_wire (push_bit 3 (ucast (f :: u32)) OR 2) = 2"
  by (simp_all add: tag_wire_def)

text \<open>A reference decoder for one field, and unique decodability of field sequences.\<close>

definition decode_field :: "bytes \<Rightarrow> (wire_field \<times> bytes) res" where
  "decode_field bs =
     bindR (varint bs) (\<lambda>(tag, bs1).
       if tag AND 7 = 0 then bindR (varint bs1) (\<lambda>(v, bs2). Inr (Uint_field (tag_field tag) v, bs2))
       else bindR (read_bytes (2 ^ 64) bs1) (\<lambda>(b, bs2). Inr (Bytes_field (tag_field tag) b, bs2)))"

lemma decode_encode_field: "wf_field f \<Longrightarrow> decode_field (encode_field f @ rest) = Inr (f, rest)"
  by (cases f) (simp_all add: decode_field_def varint_append_varint read_bytes_append_varint)

lemma encode_field_nonempty [simp]: "encode_field f \<noteq> []"
  by (cases f) simp_all

lemma encode_fields_inj:
  assumes "encode_fields fs = encode_fields gs" and "list_all wf_field fs" and "list_all wf_field gs"
  shows "fs = gs"
  using assms
proof (induction fs arbitrary: gs)
  case Nil
  then show ?case by (cases gs) auto
next
  case (Cons f fs)
  from Cons.prems(1) have "encode_fields gs \<noteq> []" by (metis append_is_Nil_conv encode_field_nonempty encode_fields_simps(2))
  then obtain g gs' where gs: "gs = g # gs'" by (cases gs) auto
  have "decode_field (encode_fields (f # fs)) = Inr (f, encode_fields fs)"
    using Cons.prems(2) by (simp add: decode_encode_field)
  moreover have "decode_field (encode_fields gs) = Inr (g, encode_fields gs')"
    using Cons.prems(3) gs by (simp add: decode_encode_field)
  ultimately have "f = g" and "encode_fields fs = encode_fields gs'"
    using Cons.prems(1) by auto
  then show ?case using Cons gs by auto
qed

text \<open>Optional fields: what the conditional append functions emit for a value.\<close>

definition opt_uint :: "u32 \<Rightarrow> u64 \<Rightarrow> wire_field list" where
  "opt_uint f v = (if v = 0 then [] else [Uint_field f v])"

definition opt_bytes :: "u32 \<Rightarrow> bytes \<Rightarrow> wire_field list" where
  "opt_bytes f b = (if b = [] then [] else [Bytes_field f b])"

lemma append_encode_fields:
  "append_uint out f v = out @ encode_fields (opt_uint f v)"
  "append_required_uint out f v = out @ encode_fields [Uint_field f v]"
  "append_bytes out f b = out @ encode_fields (opt_bytes f b)"
  by (simp_all add: append_uint_encode opt_uint_def opt_bytes_def)

primrec field_number :: "wire_field \<Rightarrow> u32" where
  "field_number (Uint_field f v) = f"
| "field_number (Bytes_field f b) = f"

text \<open>Reading a value back from a field list; an absent field reads as the default.\<close>

definition uint_value :: "u32 \<Rightarrow> wire_field list \<Rightarrow> u64" where
  "uint_value k fs = (case find (\<lambda>f. field_number f = k) fs of Some (Uint_field _ v) \<Rightarrow> v | _ \<Rightarrow> 0)"

definition bytes_value :: "u32 \<Rightarrow> wire_field list \<Rightarrow> bytes" where
  "bytes_value k fs = (case find (\<lambda>f. field_number f = k) fs of Some (Bytes_field _ b) \<Rightarrow> b | _ \<Rightarrow> [])"

lemma field_value_simps:
  "uint_value k [] = 0" "bytes_value k [] = []"
  "uint_value k (opt_uint f v @ fs) = (if f = k \<and> v \<noteq> 0 then v else uint_value k fs)"
  "uint_value k (Uint_field f v # fs) = (if f = k then v else uint_value k fs)"
  "uint_value k (opt_bytes f b @ fs) = (if f = k \<and> b \<noteq> [] then 0 else uint_value k fs)"
  "bytes_value k (opt_uint f v @ fs) = (if f = k \<and> v \<noteq> 0 then [] else bytes_value k fs)"
  "bytes_value k (Uint_field f v # fs) = (if f = k then [] else bytes_value k fs)"
  "bytes_value k (opt_bytes f b @ fs) = (if f = k \<and> b \<noteq> [] then b else bytes_value k fs)"
  by (auto simp: uint_value_def bytes_value_def opt_uint_def opt_bytes_def)

lemma wf_opt_fields [simp]:
  "list_all wf_field (opt_uint f v)" "list_all wf_field (opt_bytes f b) \<longleftrightarrow> length b < 2 ^ 64"
  by (auto simp: opt_uint_def opt_bytes_def)

end
