(* ===== verification/Protocol.thy ===== *)
theory Protocol
  imports Wire
begin

text \<open>
  The messages of \<^verbatim>\<open>protocol.hpp\<close> and \<^verbatim>\<open>protocol.cpp\<close>: constants, structures, the six strict
  parsers, the serializers, and the digests.  Every parser is a \<^verbatim>\<open>while (!reader.done())\<close> loop whose
  body is split into the per-field \<^verbatim>\<open>switch\<close> (\<open>..._field\<close>) and the loop itself (\<open>..._loop\<close>).
  OpenSSL is a parameter (\<open>evp\<close>).
\<close>

section \<open>Constants\<close>

definition k_protocol_version :: u32 where "k_protocol_version = 4"
definition k_tae_read_protocol_version :: u32 where "k_tae_read_protocol_version = 2"
definition k_stream_read_protocol_version :: u32 where "k_stream_read_protocol_version = 1"
definition k_substrait_version :: bytes where "k_substrait_version = bytes_of ''0.78.0''"
definition k_sha256_bytes :: nat where "k_sha256_bytes = 32"
definition k_max_plan_bytes :: nat where "k_max_plan_bytes = 16 * 1024 * 1024"
definition k_max_stream_inputs :: nat where "k_max_stream_inputs = 16"
definition k_max_stream_input_batch_bytes :: u64 where "k_max_stream_input_batch_bytes = 4 * 1024 * 1024"
definition k_native_batch_codec_version :: u32 where "k_native_batch_codec_version = 1"
definition k_native_result_schema_version :: u32 where "k_native_result_schema_version = 1"
definition k_native_batch_frame_header_bytes :: nat where "k_native_batch_frame_header_bytes = 24"
definition k_max_native_result_schema_bytes :: nat where "k_max_native_result_schema_bytes = 1024 * 1024"
definition k_max_native_result_columns :: nat where "k_max_native_result_columns = 4096"

lemmas k_defs = k_protocol_version_def k_tae_read_protocol_version_def
  k_stream_read_protocol_version_def k_substrait_version_def k_sha256_bytes_def
  k_max_plan_bytes_def k_max_stream_inputs_def k_max_stream_input_batch_bytes_def
  k_native_batch_codec_version_def k_native_result_schema_version_def
  k_native_batch_frame_header_bytes_def k_max_native_result_schema_bytes_def
  k_max_native_result_columns_def

section \<open>Structures\<close>

text \<open>Signed 32-bit fields keep their two's complement bits; \<open>sint\<close> reads them.\<close>

record native_result_column =
  col_name :: bytes
  col_oid :: u32
  col_width :: u32
  col_scale :: u32
  col_charset :: u32
  col_not_nullable :: bool

record native_result_schema =
  sch_version :: u32
  sch_columns :: "native_result_column list"

record execute_request =
  er_protocol_version :: u32
  er_substrait_version :: bytes
  er_capability_hash :: bytes
  er_max_batch_bytes :: u64
  er_deadline_unix_ms :: u64
  er_plan :: bytes
  er_query_id :: bytes
  er_idempotency_key :: bytes
  er_account_id :: u64
  er_max_input_batch_bytes :: u64
  er_result_schema :: bytes
  er_fingerprint :: bytes

record upload_input_request =
  ur_ticket :: bytes
  ur_stream_ref :: bytes

record upload_input_ack =
  ack_batches :: u64
  ack_rows :: u64
  ack_bytes :: u64
  ack_complete :: bool
  ack_not_needed :: bool
  ack_ready :: bool

record native_batch_frame =
  nf_sequence :: u64
  nf_payload :: bytes

record cancel_request =
  cr_ticket :: bytes
  cr_idempotency_key :: bytes

record resolve_response =
  rr_tae_read :: bytes
  rr_manifest :: bytes
  rr_canonical_schema :: bytes

text \<open>The reads of the retained plan, as \<^verbatim>\<open>serialize_tae_read\<close> and \<^verbatim>\<open>serialize_stream_read\<close> use
  them; integer members are given as the 64-bit values the append functions receive.\<close>

record tae_read =
  tr_protocol_version :: u64
  tr_feature_bits :: u64
  tr_read_ref :: bytes
  tr_query_id :: bytes
  tr_account_id :: u64
  tr_table_id :: u64
  tr_snapshot_ts :: bytes
  tr_schema_digest :: bytes
  tr_manifest_sha256 :: bytes
  tr_capability_hash :: bytes
  tr_expires_at_unix_ms :: u64
  tr_database_id :: u64

record stream_read =
  sr_protocol_version :: u64
  sr_feature_bits :: u64
  sr_stream_ref :: bytes
  sr_query_id :: bytes
  sr_account_id :: u64
  sr_snapshot_ts :: bytes
  sr_schema_digest :: bytes
  sr_capability_hash :: bytes
  sr_expires_at_unix_ms :: u64

definition empty_execute_request :: execute_request where
  "empty_execute_request =
     \<lparr>er_protocol_version = 0, er_substrait_version = [], er_capability_hash = [],
      er_max_batch_bytes = 0, er_deadline_unix_ms = 0, er_plan = [], er_query_id = [],
      er_idempotency_key = [], er_account_id = 0, er_max_input_batch_bytes = 0,
      er_result_schema = [], er_fingerprint = []\<rparr>"

definition empty_column :: native_result_column where
  "empty_column = \<lparr>col_name = [], col_oid = 0, col_width = 0, col_scale = 0, col_charset = 0,
     col_not_nullable = False\<rparr>"

section \<open>Reading a value into the message under construction\<close>

text \<open>\<open>read_into p f\<close> reads with \<open>p\<close> and stores the value with \<open>f\<close>, which may refuse it.\<close>

definition read_into :: "(bytes \<Rightarrow> ('a \<times> bytes) res) \<Rightarrow> ('a \<Rightarrow> 'b res) \<Rightarrow> bytes \<Rightarrow> ('b \<times> bytes) res" where
  "read_into p f bs = bindR (p bs) (\<lambda>(x, rest). bindR (f x) (\<lambda>y. Inr (y, rest)))"

lemma read_into_InrE:
  assumes "read_into p f bs = Inr (y, rest)"
  obtains x where "p bs = Inr (x, rest)" and "f x = Inr y"
  using assms by (auto simp: read_into_def)

lemma read_into_Inr: "p bs = Inr (x, rest) \<Longrightarrow> f x = Inr y \<Longrightarrow> read_into p f bs = Inr (y, rest)"
  by (simp add: read_into_def)

named_theorems reads_intros \<open>readers that consume a prefix\<close>

declare reads_prefix_varint [reads_intros] reads_prefix_read_bytes [reads_intros]

lemma reads_prefix_read_into [reads_intros]:
  assumes "reads_prefix p"
  shows "reads_prefix (read_into p f)"
  unfolding reads_prefix_def
proof (intro allI impI)
  fix bs y rest
  assume "read_into p f bs = Inr (y, rest)"
  then obtain x where p: "p bs = Inr (x, rest)" and f: "f x = Inr y"
    by (auto simp: read_into_def)
  from reads_prefixD [OF assms p] obtain pre
    where "bs = pre @ rest" "\<And>ys. p (pre @ ys) = Inr (x, ys)" by blast
  with f show "\<exists>pre. bs = pre @ rest \<and> (\<forall>ys. read_into p f (pre @ ys) = Inr (y, ys))"
    by (auto simp: read_into_def)
qed

lemma reads_prefix_fail [reads_intros]: "reads_prefix (\<lambda>bs. Inl e)"
  by (simp add: reads_prefix_def)

lemma reads_prefix_if [reads_intros]:
  "reads_prefix p \<Longrightarrow> reads_prefix q \<Longrightarrow> reads_prefix (\<lambda>bs. if c then p bs else q bs)"
  by (cases c) simp_all

lemma reads_prefix_bind [reads_intros]:
  "(\<And>x. reads_prefix (p x)) \<Longrightarrow> reads_prefix (\<lambda>bs. bindR m (\<lambda>x. p x bs))"
  by (cases m) (simp_all add: reads_prefix_fail)

lemma reads_prefix_eta [reads_intros]: "reads_prefix p \<Longrightarrow> reads_prefix (\<lambda>bs. p bs)"
  by simp

section \<open>ExecuteSubstraitRequest\<close>

definition execute_field ::
  "u64 \<Rightarrow> execute_request \<times> u64 \<Rightarrow> bytes \<Rightarrow> ((execute_request \<times> u64) \<times> bytes) res" where
  "execute_field tag st bs =
     bindR (expect_field tag 11 (snd st)) (\<lambda>seen.
       let r = fst st; field = tag_field tag; wire = tag_wire tag;
           integer = (field = 1 \<or> field = 4 \<or> field = 5 \<or> field = 9 \<or> field = 10) in
       if wire \<noteq> (if integer then 0 else 2) then Inl (Invalid_argument ''wrong protobuf wire type'')
       else if field = 1 then
         read_into varint (\<lambda>value.
           if value > 0xffffffff then Inl (Invalid_argument ''protocol version overflows uint32'')
           else Inr (r\<lparr>er_protocol_version := ucast value\<rparr>, seen)) bs
       else if field = 2 then
         read_into (read_bytes 64) (\<lambda>b. Inr (r\<lparr>er_substrait_version := b\<rparr>, seen)) bs
       else if field = 3 then
         read_into (read_bytes k_sha256_bytes) (\<lambda>b. Inr (r\<lparr>er_capability_hash := b\<rparr>, seen)) bs
       else if field = 4 then
         read_into varint (\<lambda>v. Inr (r\<lparr>er_max_batch_bytes := v\<rparr>, seen)) bs
       else if field = 5 then
         read_into varint (\<lambda>v. Inr (r\<lparr>er_deadline_unix_ms := v\<rparr>, seen)) bs
       else if field = 6 then
         read_into (read_bytes k_max_plan_bytes) (\<lambda>b. Inr (r\<lparr>er_plan := b\<rparr>, seen)) bs
       else if field = 7 then
         read_into (read_bytes 16) (\<lambda>b. Inr (r\<lparr>er_query_id := b\<rparr>, seen)) bs
       else if field = 8 then
         read_into (read_bytes k_sha256_bytes) (\<lambda>b. Inr (r\<lparr>er_idempotency_key := b\<rparr>, seen)) bs
       else if field = 9 then
         read_into varint (\<lambda>v. Inr (r\<lparr>er_account_id := v\<rparr>, seen)) bs
       else if field = 10 then
         read_into varint (\<lambda>v. Inr (r\<lparr>er_max_input_batch_bytes := v\<rparr>, seen)) bs
       else if field = 11 then
         read_into (read_bytes k_max_native_result_schema_bytes)
           (\<lambda>b. Inr (r\<lparr>er_result_schema := b\<rparr>, seen)) bs
       else Inl (Invalid_argument ''unknown ExecuteSubstrait field''))"

lemma execute_field_prefix: "reads_prefix (execute_field tag st)"
  unfolding execute_field_def Let_def by (intro reads_intros)

function execute_loop :: "execute_request \<times> u64 \<Rightarrow> bytes \<Rightarrow> (execute_request \<times> u64) res" where
  "execute_loop st bs =
     (if bs = [] then Inr st
      else bindR (varint bs) (\<lambda>(tag, bs1).
             bindR (execute_field tag st bs1) (\<lambda>(st', bs2). execute_loop st' bs2)))"
  by pat_completeness auto
termination
  by (relation "measure (\<lambda>(st, bs). length bs)")
    (auto dest!: varint_shorter reads_prefix_length [OF execute_field_prefix])

declare execute_loop.simps [simp del]

definition parse_execute_request :: "bytes \<Rightarrow> execute_request res" where
  "parse_execute_request bs =
     (if bs = [] \<or> length bs > k_max_plan_bytes + k_max_native_result_schema_bytes + 4096
      then Inl (Invalid_argument ''ExecuteSubstrait request is empty or too large'')
      else bindR (execute_loop (empty_execute_request, 0) bs) (\<lambda>(r, seen).
        if seen \<noteq> 0x7ff \<or> length (er_query_id r) \<noteq> 16 \<or> length (er_idempotency_key r) \<noteq> k_sha256_bytes
        then Inl (Invalid_argument ''ExecuteSubstrait request is missing a field'')
        else Inr r))"

interpretation execute_msg: wire_message execute_field execute_loop
  by unfold_locales (rule execute_loop.simps, rule execute_field_prefix)

section \<open>NativeResultSchema\<close>

text \<open>The lambda \<^verbatim>\<open>parse_column\<close> inside \<^verbatim>\<open>parse_native_result_schema\<close>.  An \<open>int32\<close> is accepted as a
  non-negative 31-bit varint or as the sign-extended 64-bit form of a negative value.\<close>

definition first_sign_extended_int32 :: u64 where
  "first_sign_extended_int32 = 0xffffffffffffffff - 0x7fffffff"

definition narrow_int32 :: "u64 \<Rightarrow> u32 res" where
  "narrow_int32 value =
     (if value > 0x7fffffff \<and> value < first_sign_extended_int32
      then Inl (Invalid_argument ''native result width or scale overflows int32'')
      else Inr (ucast value))"

definition column_field ::
  "u64 \<Rightarrow> native_result_column \<times> u64 \<Rightarrow> bytes \<Rightarrow> ((native_result_column \<times> u64) \<times> bytes) res" where
  "column_field tag st bs =
     bindR (expect_field tag 6 (snd st)) (\<lambda>seen.
       let c = fst st; field = tag_field tag; wire = tag_wire tag in
       if wire \<noteq> (if field = 1 then 2 else 0)
       then Inl (Invalid_argument ''native result column has the wrong wire type'')
       else if field = 1 then
         read_into (read_bytes k_max_native_result_schema_bytes) (\<lambda>b. Inr (c\<lparr>col_name := b\<rparr>, seen)) bs
       else if field = 2 then
         read_into varint (\<lambda>value.
           if value > 0xffffffff then Inl (Invalid_argument ''native result OID overflows uint32'')
           else Inr (c\<lparr>col_oid := ucast value\<rparr>, seen)) bs
       else if field = 3 then
         read_into varint (\<lambda>value. bindR (narrow_int32 value) (\<lambda>w. Inr (c\<lparr>col_width := w\<rparr>, seen))) bs
       else if field = 4 then
         read_into varint (\<lambda>value. bindR (narrow_int32 value) (\<lambda>w. Inr (c\<lparr>col_scale := w\<rparr>, seen))) bs
       else if field = 5 then
         read_into varint (\<lambda>value.
           if value > 0xff then Inl (Invalid_argument ''native result charset overflows uint8'')
           else Inr (c\<lparr>col_charset := ucast value\<rparr>, seen)) bs
       else if field = 6 then
         read_into varint (\<lambda>value.
           if value > 1 then Inl (Invalid_argument ''native result nullability is invalid'')
           else Inr (c\<lparr>col_not_nullable := (value \<noteq> 0)\<rparr>, seen)) bs
       else Inl (Invalid_argument ''unknown native result column field''))"

lemma column_field_prefix: "reads_prefix (column_field tag st)"
  unfolding column_field_def Let_def by (intro reads_intros)

function column_loop :: "native_result_column \<times> u64 \<Rightarrow> bytes \<Rightarrow> (native_result_column \<times> u64) res" where
  "column_loop st bs =
     (if bs = [] then Inr st
      else bindR (varint bs) (\<lambda>(tag, bs1).
             bindR (column_field tag st bs1) (\<lambda>(st', bs2). column_loop st' bs2)))"
  by pat_completeness auto
termination
  by (relation "measure (\<lambda>(st, bs). length bs)")
    (auto dest!: varint_shorter reads_prefix_length [OF column_field_prefix])

declare column_loop.simps [simp del]

interpretation column_msg: wire_message column_field column_loop
  by unfold_locales (rule column_loop.simps, rule column_field_prefix)

definition parse_result_column :: "bytes \<Rightarrow> native_result_column res" where
  "parse_result_column wire_bytes =
     bindR (column_loop (empty_column, 0) wire_bytes) (\<lambda>(c, seen).
       if seen AND push_bit 1 1 = 0 \<or> col_oid c = 0
       then Inl (Invalid_argument ''native result column is missing its OID'')
       else Inr c)"

definition schema_field ::
  "u64 \<Rightarrow> native_result_schema \<times> bool \<Rightarrow> bytes \<Rightarrow> ((native_result_schema \<times> bool) \<times> bytes) res" where
  "schema_field tag st bs =
     (let r = fst st; seen_version = snd st; field = tag_field tag; wire = tag_wire tag in
      if field = 1 then
        if seen_version \<or> wire \<noteq> 0
        then Inl (Invalid_argument ''native result schema version is duplicated or malformed'')
        else read_into varint (\<lambda>value.
          if value > 0xffffffff
          then Inl (Invalid_argument ''native result schema version overflows uint32'')
          else Inr (r\<lparr>sch_version := ucast value\<rparr>, True)) bs
      else if field = 2 then
        if wire \<noteq> 2 \<or> length (sch_columns r) \<ge> k_max_native_result_columns
        then Inl (Invalid_argument ''native result schema columns are malformed or excessive'')
        else read_into (read_bytes k_max_native_result_schema_bytes) (\<lambda>b.
          bindR (parse_result_column b) (\<lambda>c.
            Inr (r\<lparr>sch_columns := sch_columns r @ [c]\<rparr>, seen_version))) bs
      else Inl (Invalid_argument ''unknown native result schema field''))"

lemma schema_field_prefix: "reads_prefix (schema_field tag st)"
  unfolding schema_field_def Let_def by (intro reads_intros)

function schema_loop :: "native_result_schema \<times> bool \<Rightarrow> bytes \<Rightarrow> (native_result_schema \<times> bool) res" where
  "schema_loop st bs =
     (if bs = [] then Inr st
      else bindR (varint bs) (\<lambda>(tag, bs1).
             bindR (schema_field tag st bs1) (\<lambda>(st', bs2). schema_loop st' bs2)))"
  by pat_completeness auto
termination
  by (relation "measure (\<lambda>(st, bs). length bs)")
    (auto dest!: varint_shorter reads_prefix_length [OF schema_field_prefix])

declare schema_loop.simps [simp del]

interpretation schema_msg: wire_message schema_field schema_loop
  by unfold_locales (rule schema_loop.simps, rule schema_field_prefix)

definition parse_native_result_schema :: "bytes \<Rightarrow> native_result_schema res" where
  "parse_native_result_schema bs =
     (if bs = [] \<or> length bs > k_max_native_result_schema_bytes
      then Inl (Invalid_argument ''native result schema is empty or too large'')
      else bindR (schema_loop (\<lparr>sch_version = 0, sch_columns = []\<rparr>, False) bs) (\<lambda>(r, seen_version).
        if \<not> seen_version \<or> sch_version r \<noteq> k_native_result_schema_version \<or> sch_columns r = []
        then Inl (Invalid_argument ''native result schema is incomplete or unsupported'')
        else Inr r))"

section \<open>UploadInputRequest, CancelExecutionRequest, ResolveTaeReadResponse\<close>

definition upload_field ::
  "u64 \<Rightarrow> upload_input_request \<times> u64 \<Rightarrow> bytes \<Rightarrow> ((upload_input_request \<times> u64) \<times> bytes) res" where
  "upload_field tag st bs =
     bindR (expect_field tag 2 (snd st)) (\<lambda>seen.
       let r = fst st in
       if tag AND 7 \<noteq> 2 then Inl (Invalid_argument ''wrong UploadInput wire type'')
       else if drop_bit 3 tag = 1 then
         read_into (read_bytes k_sha256_bytes) (\<lambda>b. Inr (r\<lparr>ur_ticket := b\<rparr>, seen)) bs
       else if drop_bit 3 tag = 2 then
         read_into (read_bytes k_sha256_bytes) (\<lambda>b. Inr (r\<lparr>ur_stream_ref := b\<rparr>, seen)) bs
       else Inl (Invalid_argument ''unknown UploadInput field''))"

lemma upload_field_prefix: "reads_prefix (upload_field tag st)"
  unfolding upload_field_def Let_def by (intro reads_intros)

function upload_loop :: "upload_input_request \<times> u64 \<Rightarrow> bytes \<Rightarrow> (upload_input_request \<times> u64) res" where
  "upload_loop st bs =
     (if bs = [] then Inr st
      else bindR (varint bs) (\<lambda>(tag, bs1).
             bindR (upload_field tag st bs1) (\<lambda>(st', bs2). upload_loop st' bs2)))"
  by pat_completeness auto
termination
  by (relation "measure (\<lambda>(st, bs). length bs)")
    (auto dest!: varint_shorter reads_prefix_length [OF upload_field_prefix])

declare upload_loop.simps [simp del]

interpretation upload_msg: wire_message upload_field upload_loop
  by unfold_locales (rule upload_loop.simps, rule upload_field_prefix)

definition parse_upload_input_request :: "bytes \<Rightarrow> upload_input_request res" where
  "parse_upload_input_request bs =
     (if bs = [] \<or> length bs > 2 * (k_sha256_bytes + 2)
      then Inl (Invalid_argument ''UploadInput request is empty or too large'')
      else bindR (upload_loop (\<lparr>ur_ticket = [], ur_stream_ref = []\<rparr>, 0) bs) (\<lambda>(r, seen).
        if seen \<noteq> 3 \<or> length (ur_ticket r) \<noteq> k_sha256_bytes \<or> length (ur_stream_ref r) \<noteq> k_sha256_bytes
        then Inl (Invalid_argument ''UploadInput requires a ticket and stream reference'')
        else Inr r))"

definition cancel_field ::
  "u64 \<Rightarrow> cancel_request \<times> u64 \<Rightarrow> bytes \<Rightarrow> ((cancel_request \<times> u64) \<times> bytes) res" where
  "cancel_field tag st bs =
     bindR (expect_field tag 2 (snd st)) (\<lambda>seen.
       let r = fst st in
       if tag AND 7 \<noteq> 2 then Inl (Invalid_argument ''wrong CancelExecution wire type'')
       else if drop_bit 3 tag = 1 then
         read_into (read_bytes k_sha256_bytes) (\<lambda>b. Inr (r\<lparr>cr_ticket := b\<rparr>, seen)) bs
       else if drop_bit 3 tag = 2 then
         read_into (read_bytes k_sha256_bytes) (\<lambda>b. Inr (r\<lparr>cr_idempotency_key := b\<rparr>, seen)) bs
       else Inl (Invalid_argument ''unknown CancelExecution field''))"

lemma cancel_field_prefix: "reads_prefix (cancel_field tag st)"
  unfolding cancel_field_def Let_def by (intro reads_intros)

function cancel_loop :: "cancel_request \<times> u64 \<Rightarrow> bytes \<Rightarrow> (cancel_request \<times> u64) res" where
  "cancel_loop st bs =
     (if bs = [] then Inr st
      else bindR (varint bs) (\<lambda>(tag, bs1).
             bindR (cancel_field tag st bs1) (\<lambda>(st', bs2). cancel_loop st' bs2)))"
  by pat_completeness auto
termination
  by (relation "measure (\<lambda>(st, bs). length bs)")
    (auto dest!: varint_shorter reads_prefix_length [OF cancel_field_prefix])

declare cancel_loop.simps [simp del]

interpretation cancel_msg: wire_message cancel_field cancel_loop
  by unfold_locales (rule cancel_loop.simps, rule cancel_field_prefix)

definition parse_cancel_request :: "bytes \<Rightarrow> cancel_request res" where
  "parse_cancel_request bs =
     (if bs = [] \<or> length bs > k_sha256_bytes + 2
      then Inl (Invalid_argument ''CancelExecution request is empty or too large'')
      else bindR (cancel_loop (\<lparr>cr_ticket = [], cr_idempotency_key = []\<rparr>, 0) bs) (\<lambda>(r, seen).
        if (seen \<noteq> 1 \<and> seen \<noteq> 2) \<or> (cr_ticket r \<noteq> [] \<and> length (cr_ticket r) \<noteq> k_sha256_bytes) \<or>
           (cr_idempotency_key r \<noteq> [] \<and> length (cr_idempotency_key r) \<noteq> k_sha256_bytes)
        then Inl (Invalid_argument ''CancelExecution requires exactly one 32-byte identity'')
        else Inr r))"

definition max_response_bytes :: nat where "max_response_bytes = 64 * 1024 * 1024"

definition resolve_field ::
  "u64 \<Rightarrow> resolve_response \<times> u64 \<Rightarrow> bytes \<Rightarrow> ((resolve_response \<times> u64) \<times> bytes) res" where
  "resolve_field tag st bs =
     bindR (expect_field tag 3 (snd st)) (\<lambda>seen.
       let r = fst st in
       if tag AND 7 \<noteq> 2 then Inl (Invalid_argument ''wrong ResolveTaeRead wire type'')
       else if drop_bit 3 tag = 1 then
         read_into (read_bytes (16 * 1024)) (\<lambda>b. Inr (r\<lparr>rr_tae_read := b\<rparr>, seen)) bs
       else if drop_bit 3 tag = 2 then
         read_into (read_bytes max_response_bytes) (\<lambda>b. Inr (r\<lparr>rr_manifest := b\<rparr>, seen)) bs
       else if drop_bit 3 tag = 3 then
         read_into (read_bytes (1024 * 1024)) (\<lambda>b. Inr (r\<lparr>rr_canonical_schema := b\<rparr>, seen)) bs
       else Inl (Invalid_argument ''unknown ResolveTaeRead field''))"

lemma resolve_field_prefix: "reads_prefix (resolve_field tag st)"
  unfolding resolve_field_def Let_def by (intro reads_intros)

function resolve_loop :: "resolve_response \<times> u64 \<Rightarrow> bytes \<Rightarrow> (resolve_response \<times> u64) res" where
  "resolve_loop st bs =
     (if bs = [] then Inr st
      else bindR (varint bs) (\<lambda>(tag, bs1).
             bindR (resolve_field tag st bs1) (\<lambda>(st', bs2). resolve_loop st' bs2)))"
  by pat_completeness auto
termination
  by (relation "measure (\<lambda>(st, bs). length bs)")
    (auto dest!: varint_shorter reads_prefix_length [OF resolve_field_prefix])

declare resolve_loop.simps [simp del]

interpretation resolve_msg: wire_message resolve_field resolve_loop
  by unfold_locales (rule resolve_loop.simps, rule resolve_field_prefix)

definition parse_resolve_response :: "bytes \<Rightarrow> resolve_response res" where
  "parse_resolve_response bs =
     (if bs = [] \<or> length bs > max_response_bytes
      then Inl (Invalid_argument ''ResolveTaeRead response is empty or too large'')
      else bindR (resolve_loop (\<lparr>rr_tae_read = [], rr_manifest = [], rr_canonical_schema = []\<rparr>, 0) bs)
        (\<lambda>(r, seen).
          if seen \<noteq> 7 \<or> rr_tae_read r = [] \<or> rr_manifest r = [] \<or> rr_canonical_schema r = []
          then Inl (Invalid_argument ''ResolveTaeRead response is missing a field'')
          else Inr r))"

section \<open>Native batch frames\<close>

definition mob1_magic :: bytes where
  "mob1_magic = bytes_of ''MOB1''"

definition parse_native_batch_frame :: "bytes \<Rightarrow> native_batch_frame res" where
  "parse_native_batch_frame bs =
     (if length bs < k_native_batch_frame_header_bytes \<or> take 4 bs \<noteq> mob1_magic
      then Inl (Invalid_argument ''invalid MO native batch frame magic or length'')
      else if ucast (load_le 2 bs 4 :: u16) \<noteq> k_native_batch_codec_version \<or> (load_le 2 bs 6 :: u16) \<noteq> 0
      then Inl (Invalid_argument ''unsupported MO native batch frame version or flags'')
      else
        let frame_seq = load_le 8 bs 8 :: u64; payload_size = load_le 8 bs 16 :: u64 in
        if frame_seq = 0 \<or> payload_size = 0 \<or> payload_size > k_max_stream_input_batch_bytes \<or>
           unat payload_size \<noteq> length bs - k_native_batch_frame_header_bytes
        then Inl (Invalid_argument ''invalid MO native batch frame sequence or payload length'')
        else Inr \<lparr>nf_sequence = frame_seq, nf_payload = drop k_native_batch_frame_header_bytes bs\<rparr>)"

definition serialize_native_batch_frame :: "u64 \<Rightarrow> bytes \<Rightarrow> bytes res" where
  "serialize_native_batch_frame frame_seq payload =
     (if frame_seq = 0 \<or> payload = []
      then Inl (Invalid_argument ''MO native batch frame requires a sequence and payload'')
      else Inr (mob1_magic
        @ [ucast (k_native_batch_codec_version AND 0xff),
           ucast (drop_bit 8 k_native_batch_codec_version AND 0xff), 0, 0]
        @ store_le 8 frame_seq @ store_le 8 (of_nat (length payload) :: u64) @ payload))"

section \<open>Serializers\<close>

definition serialize_upload_input_ack :: "upload_input_ack \<Rightarrow> bytes" where
  "serialize_upload_input_ack ack =
     (let out = append_uint [] 1 (ack_batches ack);
          out = append_uint out 2 (ack_rows ack);
          out = append_uint out 3 (ack_bytes ack);
          out = (if ack_complete ack then append_uint out 4 1 else out);
          out = (if ack_not_needed ack then append_uint out 5 1 else out)
      in if ack_ready ack then append_uint out 6 1 else out)"

definition serialize_tae_read :: "tae_read \<Rightarrow> bytes" where
  "serialize_tae_read request =
     (let out = append_uint [] 1 (tr_protocol_version request);
          out = append_uint out 2 (tr_feature_bits request);
          out = append_bytes out 3 (tr_read_ref request);
          out = append_bytes out 4 (tr_query_id request);
          out = append_required_uint out 5 (tr_account_id request);
          out = append_uint out 6 (tr_table_id request);
          out = append_bytes out 7 (tr_snapshot_ts request);
          out = append_bytes out 8 (tr_schema_digest request);
          out = append_bytes out 9 (tr_manifest_sha256 request);
          out = append_bytes out 10 (tr_capability_hash request);
          out = append_uint out 11 (tr_expires_at_unix_ms request)
      in append_uint out 12 (tr_database_id request))"

definition serialize_stream_read :: "stream_read \<Rightarrow> bytes" where
  "serialize_stream_read request =
     (let out = append_uint [] 1 (sr_protocol_version request);
          out = append_uint out 2 (sr_feature_bits request);
          out = append_bytes out 3 (sr_stream_ref request);
          out = append_bytes out 4 (sr_query_id request);
          out = append_required_uint out 5 (sr_account_id request);
          out = append_bytes out 6 (sr_snapshot_ts request);
          out = append_bytes out 7 (sr_schema_digest request);
          out = append_bytes out 8 (sr_capability_hash request)
      in append_uint out 9 (sr_expires_at_unix_ms request))"

definition serialize_resolve_request :: "tae_read \<Rightarrow> bytes \<Rightarrow> bytes" where
  "serialize_resolve_request request requested_schema =
     append_bytes (append_bytes [] 1 (serialize_tae_read request)) 2 requested_schema"

section \<open>Digests\<close>

text \<open>The OpenSSL calls of \<^verbatim>\<open>sha256\<close>: no context, a failing call, or a digest.\<close>

datatype evp_result = Evp_no_context | Evp_failed | Evp_digest bytes

definition sha256 :: "(bytes \<Rightarrow> evp_result) \<Rightarrow> bytes \<Rightarrow> bytes res" where
  "sha256 evp bs =
     (case evp bs of
        Evp_no_context \<Rightarrow> Inl (Runtime_error ''cannot allocate SHA-256 context'')
      | Evp_failed \<Rightarrow> Inl (Runtime_error ''SHA-256 failed'')
      | Evp_digest d \<Rightarrow>
          if length d \<noteq> k_sha256_bytes then Inl (Runtime_error ''SHA-256 failed'') else Inr d)"

definition sha256_bytes :: "(bytes \<Rightarrow> evp_result) \<Rightarrow> bytes \<Rightarrow> bytes res" where
  "sha256_bytes evp bs = sha256 evp bs"

definition hex_digits :: string where
  "hex_digits = ''0123456789abcdef''"

definition hex :: "bytes \<Rightarrow> string" where
  "hex bs = concat (map (\<lambda>b. [hex_digits ! unat (drop_bit 4 b), hex_digits ! unat (b AND 0xf)]) bs)"

definition execution_idempotency_key :: "(bytes \<Rightarrow> evp_result) \<Rightarrow> u64 \<Rightarrow> bytes \<Rightarrow> bytes res" where
  "execution_idempotency_key evp account_id query_id =
     (if length query_id \<noteq> 16 then Inl (Invalid_argument ''invalid execution identity'')
      else sha256_bytes evp (store_le 8 account_id @ query_id))"

section \<open>The capability document\<close>

definition k_capability_document :: string where
  \<open>k_capability_document =
      ''{"protocol_version":4,"substrait_version":"0.78.0","tae_read_protocol_version":2,"tae_re'' @
      ''ad_feature_bits":0,"stream_read_protocol_version":1,"stream_read_feature_bits":0,"operat'' @
      ''ors":["read","filter","project","aggregate","sort","fetch","join","reference"],"join_typ'' @
      ''es":["inner","left","right","left_semi","left_anti","right_semi","right_anti"],"expressi'' @
      ''ons":["literal","selection","scalar_function","cast","if_then","singular_or_list"],"type'' @
      ''s":["bool","i8","i16","i32","i64","fp32","fp64","varchar","decimal","date"],"semantic_re'' @
      ''gistry":"exact-mo-bound-overload-and-tpch-family-v1","scalar_functions":["and","or","not'' @
      ''","equal","not_equal","lt","lte","gt","gte","is_null","is_not_null","is_not_distinct_fro'' @
      ''m","add","subtract","multiply","divide","modulus","between","like","starts_with","substr'' @
      ''ing","extract"],"aggregate_functions":["count","sum","min","max","avg"],"transport":"arr'' @
      ''ow-flight","stream_input_transport":"flight-do-put-mo-native","result_transport":"flight'' @
      ''-doget-mo-native","mo_native_result_schema_version":1,"gpu_mo_batch_ingress":true,"adapt'' @
      ''ive_gpu_result_pack":true,"mo_native_batch_codec_version":1,"mo_type_size":16,"mo_varlen'' @
      ''a_size":24,"mo_native_endian":"little","stream_input_ack":"ready-consumed-final-v1","str'' @
      ''eam_input_slots_per_read":1,"stream_input_frames_per_source_task":1,"max_stream_inputs":'' @
      ''16,"max_stream_input_batch_bytes":4194304,"max_stream_input_expanded_bytes":67108864,"st'' @
      ''ream_input_host_accounting":"pre-admitted-execution-v2","gpu_fatal_recovery":"process-fa'' @
      ''il-stop-v1","gpu_partition_concurrency":"same-stage-reentrant-v1","sirius_execution_cont'' @
      ''ract":1,"max_plan_bytes":16777216}''\<close>

definition capability_document :: bytes where
  "capability_document = bytes_of k_capability_document"

definition capability_hash :: "(bytes \<Rightarrow> evp_result) \<Rightarrow> bytes res" where
  "capability_hash evp = sha256_bytes evp capability_document"

end
