(* ===== verification/Protocol_Correct.thy ===== *)
theory Protocol_Correct
  imports Protocol
begin

text \<open>
  Correctness of the protocol codecs: every parser is strict (bounded fields, no duplicate, no
  extension of an accepted message), the fields of a request may come in any order, frames round
  trip in both directions, and the canonical read encodings are injective.
\<close>

section \<open>ExecuteSubstraitRequest: bounds\<close>

definition execute_bounded :: "execute_request \<Rightarrow> bool" where
  "execute_bounded r \<longleftrightarrow>
     length (er_substrait_version r) \<le> 64 \<and> length (er_capability_hash r) \<le> k_sha256_bytes \<and>
     length (er_plan r) \<le> k_max_plan_bytes \<and> length (er_query_id r) \<le> 16 \<and>
     length (er_idempotency_key r) \<le> k_sha256_bytes \<and>
     length (er_result_schema r) \<le> k_max_native_result_schema_bytes \<and> er_fingerprint r = []"

lemma execute_field_bounded:
  assumes "execute_field tag st bs = Inr (st', bs')" and "execute_bounded (fst st)"
  shows "execute_bounded (fst st')"
  using assms unfolding execute_field_def Let_def
  by (elim bindR_InrE, simp only: split: if_splits)
    (auto elim!: read_into_InrE dest!: read_bytes_bound simp: execute_bounded_def split: if_splits)

lemma execute_loop_bounded:
  assumes "execute_loop (empty_execute_request, 0) bs = Inr (r, seen)"
  shows "execute_bounded r"
proof -
  have start: "execute_bounded (fst (empty_execute_request, 0 :: u64))"
    by (simp add: empty_execute_request_def execute_bounded_def)
  have "execute_bounded (fst (r, seen))"
    by (rule execute_msg.loop_invariant [where P = "\<lambda>st. execute_bounded (fst st)", OF _ assms start])
      (rule execute_field_bounded)
  then show ?thesis by simp
qed

lemma parse_execute_InrD:
  assumes "parse_execute_request bs = Inr r"
  shows "bs \<noteq> []" and "length bs \<le> k_max_plan_bytes + k_max_native_result_schema_bytes + 4096"
    and "execute_loop (empty_execute_request, 0) bs = Inr (r, 0x7ff)"
    and "length (er_query_id r) = 16" and "length (er_idempotency_key r) = k_sha256_bytes"
  using assms by (auto simp: parse_execute_request_def split: if_splits)

section \<open>No accepted message can be extended\<close>

lemma mask_11: "(0x7ff :: u64) = mask (unat (11 :: u32))"
  by (simp add: mask_eq_exp_minus_1)

lemma mask_2: "(3 :: u64) = mask (unat (2 :: u32))"
  by (simp add: mask_eq_exp_minus_1)

lemma mask_3: "(7 :: u64) = mask (unat (3 :: u32))"
  by (simp add: mask_eq_exp_minus_1)

lemma execute_sealed: "\<not> is_ok (execute_field tag (r, 0x7ff) bs)"
  using expect_field_sealed [OF _ mask_11, of tag]
  by (cases "expect_field tag 11 0x7ff") (auto simp: execute_field_def)

section \<open>ExecuteSubstraitRequest: any field order parses\<close>

primrec field_tag :: "wire_field \<Rightarrow> u64" where
  "field_tag (Uint_field f v) = push_bit 3 (ucast f)"
| "field_tag (Bytes_field f b) = push_bit 3 (ucast f) OR 2"

primrec field_body :: "wire_field \<Rightarrow> bytes" where
  "field_body (Uint_field f v) = varint_bytes v"
| "field_body (Bytes_field f b) = varint_bytes (of_nat (length b)) @ b"

lemma encode_field_split: "encode_field f = varint_bytes (field_tag f) @ field_body f"
  by (cases f) simp_all

lemma tag_field_field_tag: "tag_field (field_tag f) = field_number f"
  by (cases f) simp_all

text \<open>The wire fields of a request, one per declared field.\<close>

definition execute_fields :: "execute_request \<Rightarrow> wire_field list" where
  "execute_fields r =
     [Uint_field 1 (ucast (er_protocol_version r)),
      Bytes_field 2 (er_substrait_version r),
      Bytes_field 3 (er_capability_hash r),
      Uint_field 4 (er_max_batch_bytes r),
      Uint_field 5 (er_deadline_unix_ms r),
      Bytes_field 6 (er_plan r),
      Bytes_field 7 (er_query_id r),
      Bytes_field 8 (er_idempotency_key r),
      Uint_field 9 (er_account_id r),
      Uint_field 10 (er_max_input_batch_bytes r),
      Bytes_field 11 (er_result_schema r)]"

text \<open>The bit of the seen mask that a field owns.\<close>

definition field_bit :: "wire_field \<Rightarrow> nat" where
  "field_bit f = unat (field_number f) - 1"

text \<open>The parser state after the fields in \<open>S\<close>: the values of \<open>S\<close> are in place and exactly their
  bits are set.\<close>

definition execute_agrees :: "execute_request \<Rightarrow> wire_field set \<Rightarrow> execute_request \<times> u64 \<Rightarrow> bool" where
  "execute_agrees r S st \<longleftrightarrow>
     (\<forall>j. bit (snd st) j \<longleftrightarrow> j \<in> field_bit ` S) \<and> er_fingerprint (fst st) = [] \<and>
     (\<forall>f \<in> S. f \<in> set (execute_fields (fst st)))"

lemma field_bit_simps [simp]:
  "field_bit (Uint_field f v) = unat f - 1" "field_bit (Bytes_field f b) = unat f - 1"
  by (simp_all add: field_bit_def)

lemma inj_field_bit: "inj_on field_bit (set (execute_fields r))"
  by (simp add: execute_fields_def inj_on_def)

text \<open>What the switch does with a well-formed field of a request: the value is stored, the bit set.\<close>

primrec store_field :: "wire_field \<Rightarrow> execute_request \<Rightarrow> execute_request" where
  "store_field (Uint_field f v) r =
     (if f = 1 then r\<lparr>er_protocol_version := ucast v\<rparr>
      else if f = 4 then r\<lparr>er_max_batch_bytes := v\<rparr>
      else if f = 5 then r\<lparr>er_deadline_unix_ms := v\<rparr>
      else if f = 9 then r\<lparr>er_account_id := v\<rparr>
      else r\<lparr>er_max_input_batch_bytes := v\<rparr>)"
| "store_field (Bytes_field f b) r =
     (if f = 2 then r\<lparr>er_substrait_version := b\<rparr>
      else if f = 3 then r\<lparr>er_capability_hash := b\<rparr>
      else if f = 6 then r\<lparr>er_plan := b\<rparr>
      else if f = 7 then r\<lparr>er_query_id := b\<rparr>
      else if f = 8 then r\<lparr>er_idempotency_key := b\<rparr>
      else r\<lparr>er_result_schema := b\<rparr>)"

lemma ucast_u32_u64 [simp]: "ucast (ucast (v :: u32) :: u64) = v"
  by (rule bit_word_eqI) (auto simp: bit_ucast_iff)

lemma ucast_u32_small: "\<not> (ucast (v :: u32) :: u64) > 0xffffffff"
proof -
  have "unat (ucast v :: u64) \<le> unat (0xffffffff :: u64)"
    using unsigned_less [of v, where 'a = nat] by (simp add: unsigned_ucast_eq take_bit_nat_eq_self)
  then show ?thesis by (simp add: word_less_nat_alt)
qed

lemma execute_field_store:
  assumes f: "f \<in> set (execute_fields r)" and b: "execute_bounded r"
    and seen: "\<not> bit seen (field_bit f)"
  shows "execute_field (field_tag f) (r0, seen) (field_body f @ rest) =
    Inr ((store_field f r0, seen OR 2 ^ field_bit f), rest)"
proof -
  have "field_number f \<noteq> 0" and "field_number f \<le> 11" using f by (auto simp: execute_fields_def)
  then have e: "expect_field (field_tag f) 11 seen = Inr (seen OR 2 ^ field_bit f)"
    using seen by (simp add: expect_field_ok tag_field_field_tag field_bit_def)
  show ?thesis
    using f b unfolding execute_field_def snd_conv e fst_conv bindR_Inr Let_def tag_field_field_tag
      execute_fields_def list.set insert_iff empty_iff
    by (elim disjE)
      (simp_all add: read_into_def varint_append_varint read_bytes_append_varint ucast_u32_small
        execute_bounded_def k_defs tag_wire_def)
qed

lemma length_execute_fields [simp]: "length (execute_fields r) = 11"
  by (simp add: execute_fields_def)

lemma execute_fields_nth_bit:
  "f \<in> set (execute_fields r) \<Longrightarrow> execute_fields r ! field_bit f = f \<and> field_bit f < 11"
  unfolding execute_fields_def list.set insert_iff empty_iff
  by (elim disjE) simp_all

lemma execute_fields_store:
  "f \<in> set (execute_fields r) \<Longrightarrow>
     execute_fields (store_field f r0) = (execute_fields r0)[field_bit f := f]"
  unfolding execute_fields_def list.set insert_iff empty_iff
  by (elim disjE) simp_all

lemma store_field_kept:
  assumes f: "f \<in> set (execute_fields r)" and g: "g \<in> set (execute_fields r)"
    and "g = f \<or> g \<in> set (execute_fields r0)"
  shows "g \<in> set (execute_fields (store_field f r0))"
proof (cases "g = f")
  case True
  then show ?thesis
    using execute_fields_nth_bit [OF f] by (simp add: execute_fields_store [OF f] set_update_memI)
next
  case False
  with assms(3) have "g \<in> set (execute_fields r0)" by simp
  note at = execute_fields_nth_bit [OF this]
  have "field_bit f \<noteq> field_bit g" using inj_onD [OF inj_field_bit _ f g] False by blast
  then have "(execute_fields r0)[field_bit f := f] ! field_bit g = g" and "field_bit g < 11"
    using at by simp_all
  then show ?thesis
    by (metis execute_fields_store [OF f] length_execute_fields length_list_update nth_mem)
qed

lemma store_field_fingerprint: "er_fingerprint (store_field f r) = er_fingerprint r"
  by (cases f) simp_all

lemma execute_fields_all:
  assumes "\<forall>f \<in> set (execute_fields r). f \<in> set (execute_fields r')"
    and "er_fingerprint r = er_fingerprint r'"
  shows "r = r'"
proof (rule execute_request.equality)
  have "(ucast (er_protocol_version r) :: u64) = ucast (er_protocol_version r')"
    using assms(1) by (simp add: execute_fields_def)
  then show "er_protocol_version r = er_protocol_version r'" by (metis ucast_u32_u64)
qed (use assms in \<open>simp_all add: execute_fields_def\<close>)

lemma execute_loop_fields:
  assumes "execute_bounded r" and "set fs \<subseteq> set (execute_fields r)" and "distinct fs"
    and "S \<subseteq> set (execute_fields r)" and "S \<inter> set fs = {}" and "execute_agrees r S st"
  shows "\<exists>st'. execute_loop st (encode_fields fs) = Inr st' \<and> execute_agrees r (S \<union> set fs) st'"
  using assms(2-6)
proof (induction fs arbitrary: S st)
  case Nil
  then show ?case by (simp add: execute_msg.loop_Nil)
next
  case (Cons f fs)
  obtain r0 seen where st: "st = (r0, seen)" by (cases st)
  have f: "f \<in> set (execute_fields r)" "f \<notin> S" using Cons.prems by auto
  have "field_bit f \<notin> field_bit ` S"
    using inj_on_image_mem_iff [OF inj_field_bit f(1) Cons.prems(3)] f(2) by simp
  then have fresh: "\<not> bit seen (field_bit f)"
    using Cons.prems(5) st by (simp add: execute_agrees_def)
  let ?st' = "(store_field f r0, seen OR 2 ^ field_bit f)"
  from execute_field_store [OF f(1) assms(1) fresh]
  have loop: "execute_loop st (encode_fields (f # fs)) = execute_loop ?st' (encode_fields fs)"
    unfolding st encode_fields_simps encode_field_split append_assoc
    by (rule execute_msg.loop_field)
  have "field_bit f < 64" using f(1) by (auto simp: execute_fields_def)
  then have bits: "bit (seen OR 2 ^ field_bit f) j \<longleftrightarrow> bit seen j \<or> j = field_bit f" for j
    by (auto simp: bit_or_iff bit_exp_iff)
  have agrees: "execute_agrees r (insert f S) ?st'"
    unfolding execute_agrees_def
  proof (intro conjI ballI allI)
    show "bit (snd ?st') j = (j \<in> field_bit ` insert f S)" for j
      using Cons.prems(5) st by (auto simp: execute_agrees_def bits)
    show "er_fingerprint (fst ?st') = []"
      using Cons.prems(5) st by (simp add: execute_agrees_def store_field_fingerprint)
    show "g \<in> set (execute_fields (fst ?st'))" if "g \<in> insert f S" for g
      using that Cons.prems(3,5) f st by (auto simp: execute_agrees_def intro!: store_field_kept)
  qed
  have "\<exists>st'. execute_loop ?st' (encode_fields fs) = Inr st' \<and>
      execute_agrees r (insert f S \<union> set fs) st'"
    by (rule Cons.IH [OF _ _ _ _ agrees]) (use Cons.prems f in auto)
  then show ?case unfolding loop by simp
qed

lemma execute_agrees_all:
  assumes "execute_agrees r (set (execute_fields r)) (r', seen)" and "er_fingerprint r = []"
  shows "r' = r" and "seen = 0x7ff"
proof -
  show "r' = r"
    using assms execute_fields_all [of r r'] by (auto simp: execute_agrees_def)
  show "seen = 0x7ff"
  proof (rule bit_word_eqI)
    fix j :: nat assume "j < LENGTH(64)"
    have "bit seen j \<longleftrightarrow> j \<in> field_bit ` set (execute_fields r)"
      using assms(1) by (simp add: execute_agrees_def)
    also have "\<dots> \<longleftrightarrow> j < 11" by (auto simp: execute_fields_def) arith
    also have "\<dots> \<longleftrightarrow> bit (0x7ff :: u64) j"
      unfolding mask_11 by (auto simp: bit_mask_iff)
    finally show "bit seen j = bit (0x7ff :: u64) j" .
  qed
qed

lemma varint_bytes_length: "length (varint_bytes v) \<le> 10"
proof -
  from varint_append_varint [of v "[]"] obtain pre where "varint_bytes v @ [] = pre @ []" "length pre \<le> 10"
    by (rule varint_prefix)
  then show ?thesis by simp
qed

lemma encode_field_length:
  "length (encode_field f) \<le> 20 + (case f of Uint_field _ _ \<Rightarrow> 0 | Bytes_field _ b \<Rightarrow> length b)"
  using varint_bytes_length
  by (cases f) (auto intro!: add_mono le_trans [OF add_mono [OF varint_bytes_length varint_bytes_length]])

lemma encode_fields_perm_length:
  assumes "set fs = set gs" and "distinct fs" and "distinct gs"
  shows "length (encode_fields fs) = length (encode_fields gs)"
proof -
  have "length (encode_fields hs) = (\<Sum>f \<in> set hs. length (encode_field f))" if "distinct hs" for hs
    using that by (simp add: encode_fields_def length_concat o_def sum_list_distinct_conv_sum_set)
  with assms show ?thesis by metis
qed

lemma distinct_execute_fields: "distinct (execute_fields r)"
  by (simp add: execute_fields_def)

lemma execute_fields_length:
  assumes "execute_bounded r"
  shows "length (encode_fields (execute_fields r)) \<le>
    k_max_plan_bytes + k_max_native_result_schema_bytes + 400"
proof -
  have "length (encode_fields fs) \<le>
      (\<Sum>f \<leftarrow> fs. 20 + (case f of Uint_field _ _ \<Rightarrow> 0 | Bytes_field _ b \<Rightarrow> length b))" for fs
    by (induction fs) (auto intro!: add_mono encode_field_length)
  from this [of "execute_fields r"] show ?thesis
    using assms by (simp add: execute_fields_def execute_bounded_def k_defs)
qed

lemma parse_execute_fields:
  assumes "execute_bounded r" and "length (er_query_id r) = 16"
    and "length (er_idempotency_key r) = 32"
    and "distinct fs" and "set fs = set (execute_fields r)"
  shows "parse_execute_request (encode_fields fs) = Inr r"
proof -
  have "execute_agrees r {} (empty_execute_request, 0)"
    by (simp add: execute_agrees_def empty_execute_request_def)
  with execute_loop_fields [OF assms(1) _ assms(4), of "{}" "(empty_execute_request, 0)"] assms(5)
  obtain r' seen where loop: "execute_loop (empty_execute_request, 0) (encode_fields fs) = Inr (r', seen)"
    and agrees: "execute_agrees r (set (execute_fields r)) (r', seen)" by auto
  have "er_fingerprint r = []" using assms(1) by (simp add: execute_bounded_def)
  note final = execute_agrees_all [OF agrees this]
  have "length (encode_fields fs) \<le> k_max_plan_bytes + k_max_native_result_schema_bytes + 4096"
    using execute_fields_length [OF assms(1)]
      encode_fields_perm_length [OF assms(5) assms(4) distinct_execute_fields] by simp
  moreover have "encode_fields fs \<noteq> []"
  proof -
    have "fs \<noteq> []" using assms(5) by (auto simp: execute_fields_def)
    then show ?thesis by (cases fs) auto
  qed
  ultimately show ?thesis
    using loop final assms(2,3) by (simp add: parse_execute_request_def k_sha256_bytes_def)
qed

text \<open>A concrete request.\<close>

definition demo_request :: execute_request where
  "demo_request =
     \<lparr>er_protocol_version = 4, er_substrait_version = bytes_of ''0.78.0'', er_capability_hash = replicate 32 7,
      er_max_batch_bytes = 1048576, er_deadline_unix_ms = 1700000000000, er_plan = [1, 2, 3],
      er_query_id = replicate 16 9, er_idempotency_key = replicate 32 5, er_account_id = 0,
      er_max_input_batch_bytes = 65536, er_result_schema = [8, 1], er_fingerprint = []\<rparr>"

lemma demo_request_bounded:
  "execute_bounded demo_request" "length (er_query_id demo_request) = 16"
  "length (er_idempotency_key demo_request) = 32"
  by (simp_all add: demo_request_def execute_bounded_def k_defs)

lemma demo_request_parses: "parse_execute_request (encode_fields (execute_fields demo_request)) = Inr demo_request"
  by (rule parse_execute_fields [OF demo_request_bounded distinct_execute_fields refl])

text \<open>
  C20: Encoding the eleven fields of an execute request in any order gives bytes that the parser
  accepts and turns back into the same request, for every request within the limits of the parser:
  a 16-byte query id, a 32-byte idempotency key, plan, result schema, version and capability
  strings no longer than the parser allows, and an empty fingerprint.
\<close>

theorem parse_execute_request_any_order:
  assumes "execute_bounded r" and "length (er_query_id r) = 16"
    and "length (er_idempotency_key r) = 32"
    and "distinct fs" and "set fs = set (execute_fields r)"
  shows "parse_execute_request (encode_fields fs) = Inr r"
  using assms by (rule parse_execute_fields)

theorem parse_execute_request_any_order_witness:
  "parse_execute_request (encode_fields (rev (execute_fields demo_request))) = Inr demo_request"
  by (rule parse_execute_request_any_order [OF demo_request_bounded])
    (simp_all add: distinct_execute_fields)

lemma parse_execute_request_limits:
  assumes "parse_execute_request bs = Inr r"
  shows "execute_bounded r"
  using execute_loop_bounded [OF parse_execute_InrD(3) [OF assms]] by simp

text \<open>
  C21: Every execute request the parser accepts is inside the documented limits: plan, schema and
  version lengths, 16-byte query id, 32-byte idempotency key, and envelope size.
\<close>

theorem parse_execute_request_bounds:
  assumes "parse_execute_request bs = Inr r"
  shows "length (er_substrait_version r) \<le> 64 \<and> length (er_capability_hash r) \<le> 32 \<and>
    length (er_plan r) \<le> 16777216 \<and> length (er_query_id r) = 16 \<and>
    length (er_idempotency_key r) = 32 \<and> length (er_result_schema r) \<le> 1048576 \<and>
    length bs \<le> 17829888"
  using parse_execute_InrD [OF assms] parse_execute_request_limits [OF assms]
  by (simp add: execute_bounded_def k_defs)

theorem parse_execute_request_bounds_witness:
  "length (encode_fields (execute_fields demo_request)) \<le> 17829888"
  using parse_execute_request_bounds [OF demo_request_parses] by simp

text \<open>
  C22: No accepted execute request can be extended: appending any bytes makes the parser reject
  it, so duplicate and trailing fields are refused.
\<close>

theorem parse_execute_request_prefix_free:
  assumes "parse_execute_request bs = Inr r" and "xs \<noteq> []"
  shows "\<not> is_ok (parse_execute_request (bs @ xs))"
proof -
  have "\<not> is_ok (execute_loop (r, 0x7ff) xs)"
    using execute_sealed assms(2) by (rule execute_msg.loop_sealed)
  then have "\<not> is_ok (execute_loop (empty_execute_request, 0) (bs @ xs))"
    by (simp add: execute_msg.loop_append [OF parse_execute_InrD(3) [OF assms(1)]])
  then show ?thesis
    by (auto simp: parse_execute_request_def is_ok_iff)
qed

theorem parse_execute_request_prefix_free_witness:
  "\<not> is_ok (parse_execute_request (encode_fields (execute_fields demo_request) @ [8, 4]))"
  by (rule parse_execute_request_prefix_free [OF demo_request_parses]) simp

section \<open>Upload, cancel and resolve messages\<close>

lemma upload_sealed: "\<not> is_ok (upload_field tag (r, 3) bs)"
  using expect_field_sealed [OF _ mask_2, of tag]
  by (cases "expect_field tag 2 3") (auto simp: upload_field_def)

lemma resolve_sealed: "\<not> is_ok (resolve_field tag (r, 7) bs)"
  using expect_field_sealed [OF _ mask_3, of tag]
  by (cases "expect_field tag 3 7") (auto simp: resolve_field_def)

lemma parse_upload_input_request_prefix_free:
  assumes "parse_upload_input_request bs = Inr r" and "xs \<noteq> []"
  shows "\<not> is_ok (parse_upload_input_request (bs @ xs))"
proof -
  let ?st = "(\<lparr>ur_ticket = [], ur_stream_ref = []\<rparr>, 0)"
  from assms(1) have loop: "upload_loop ?st bs = Inr (r, 3)"
    by (auto simp: parse_upload_input_request_def split: if_splits)
  have "\<not> is_ok (upload_loop (r, 3) xs)"
    using upload_sealed assms(2) by (rule upload_msg.loop_sealed)
  then have "\<not> is_ok (upload_loop ?st (bs @ xs))"
    by (simp add: upload_msg.loop_append [OF loop])
  then show ?thesis by (auto simp: parse_upload_input_request_def is_ok_iff)
qed

lemma parse_resolve_response_prefix_free:
  assumes "parse_resolve_response bs = Inr r" and "xs \<noteq> []"
  shows "\<not> is_ok (parse_resolve_response (bs @ xs))"
proof -
  let ?st = "(\<lparr>rr_tae_read = [], rr_manifest = [], rr_canonical_schema = []\<rparr>, 0)"
  from assms(1) have loop: "resolve_loop ?st bs = Inr (r, 7)"
    by (auto simp: parse_resolve_response_def split: if_splits)
  have "\<not> is_ok (resolve_loop (r, 7) xs)"
    using resolve_sealed assms(2) by (rule resolve_msg.loop_sealed)
  then have "\<not> is_ok (resolve_loop ?st (bs @ xs))"
    by (simp add: resolve_msg.loop_append [OF loop])
  then show ?thesis by (auto simp: parse_resolve_response_def is_ok_iff)
qed

text \<open>The cancel message.  The two tags it knows, and what one field does to the state.\<close>

lemma tag_parts: "tag = push_bit 3 (drop_bit 3 tag) + (tag AND 7)" for tag :: u64
proof -
  have "tag AND 7 = take_bit 3 tag" by (simp add: take_bit_eq_mask mask_eq_exp_minus_1)
  then show ?thesis by (simp add: bits_ident)
qed

lemma cancel_expect:
  "expect_field 10 2 seen = (if bit seen 0 then Inl (Invalid_argument ''duplicate protobuf field'') else Inr (seen OR 1))"
  "expect_field 18 2 seen = (if bit seen 1 then Inl (Invalid_argument ''duplicate protobuf field'') else Inr (seen OR 2))"
  using and_exp_eq_0_iff_not_bit [of seen 0] and_exp_eq_0_iff_not_bit [of seen 1]
  by (simp_all add: expect_field_def tag_field_def Let_def)

lemma cancel_field_iff:
  "cancel_field tag (q, seen) bs = Inr (st, rest) \<longleftrightarrow>
     (\<exists>x. read_bytes k_sha256_bytes bs = Inr (x, rest) \<and>
        (tag = 10 \<and> \<not> bit seen 0 \<and> st = (q\<lparr>cr_ticket := x\<rparr>, seen OR 1) \<or>
         tag = 18 \<and> \<not> bit seen 1 \<and> st = (q\<lparr>cr_idempotency_key := x\<rparr>, seen OR 2)))"
  (is "?l \<longleftrightarrow> ?r")
proof
  assume ?l
  then have "tag AND 7 = 2" "drop_bit 3 tag = 1 \<or> drop_bit 3 tag = 2"
    by (auto simp: cancel_field_def Let_def split: if_split_asm)
  then have "tag = 10 \<or> tag = 18" using tag_parts [of tag] by auto
  with \<open>?l\<close> show ?r
    by (auto simp: cancel_field_def cancel_expect Let_def elim!: read_into_InrE split: if_split_asm)
next
  assume ?r
  then show ?l by (auto simp: cancel_field_def cancel_expect read_into_def Let_def)
qed

text \<open>After one field a second one completes the mask, and then nothing more is accepted.\<close>

lemma cancel_sealed: "bit seen 0 \<Longrightarrow> bit seen 1 \<Longrightarrow> \<not> is_ok (cancel_field tag (q, seen) bs)"
  by (auto simp: is_ok_iff cancel_field_iff)

lemma cancel_second_field:
  assumes "cancel_loop (q, seen) bs = Inr (r, seen')" and "seen = 1 \<or> seen = 2" and "bs \<noteq> []"
  shows "seen' = 3"
proof -
  from assms(1,3) obtain tag bs1 q2 seen2 bs2 where step: "cancel_field tag (q, seen) bs1 = Inr ((q2, seen2), bs2)"
    and rest: "cancel_loop (q2, seen2) bs2 = Inr (r, seen')"
    by (subst (asm) cancel_loop.simps) auto
  from step assms(2) have three: "seen2 = 3" by (auto simp: cancel_field_iff)
  then have "bit seen2 0" "bit seen2 1" by (simp_all add: bit_numeral_rec)
  then have "bs2 = []" using rest cancel_msg.loop_sealed [of "(q2, seen2)" bs2] cancel_sealed by (metis is_ok_iff)
  with rest three show ?thesis by (simp add: cancel_loop.simps)
qed

text \<open>
  C27: The cancel parser accepts exactly the messages of at most 34 bytes that consist of one
  single length-delimited field, number 1 or 2, of 0 or 32 bytes, and returns that field as the
  ticket or as the idempotency key with the other one empty; a message that carries both fields is
  refused.
\<close>

theorem parse_cancel_request_one_identity:
  "parse_cancel_request bs = Inr r \<longleftrightarrow>
     length bs \<le> 34 \<and>
     (\<exists>tag body x. varint bs = Inr (tag, body) \<and> read_bytes 32 body = Inr (x, []) \<and> length x \<in> {0, 32} \<and>
        (tag = 10 \<and> r = \<lparr>cr_ticket = x, cr_idempotency_key = []\<rparr> \<or>
         tag = 18 \<and> r = \<lparr>cr_ticket = [], cr_idempotency_key = x\<rparr>))"
  (is "?l \<longleftrightarrow> ?r")
proof
  let ?st = "(\<lparr>cr_ticket = [], cr_idempotency_key = []\<rparr>, 0)"
  assume ?l
  then obtain seen where len: "bs \<noteq> []" "length bs \<le> 34" and loop: "cancel_loop ?st bs = Inr (r, seen)"
    and final: "seen = 1 \<or> seen = 2" "length (cr_ticket r) \<in> {0, 32}" "length (cr_idempotency_key r) \<in> {0, 32}"
    by (auto simp: parse_cancel_request_def k_sha256_bytes_def split: if_splits)
  from loop len(1) obtain tag body q seen1 rest where tag: "varint bs = Inr (tag, body)"
    and step: "cancel_field tag ?st body = Inr ((q, seen1), rest)" and more: "cancel_loop (q, seen1) rest = Inr (r, seen)"
    by (subst (asm) cancel_loop.simps) auto
  from step have "seen1 = 1 \<or> seen1 = 2" by (auto simp: cancel_field_iff)
  with more final(1) have rest: "rest = []"
    using cancel_second_field [of q seen1 rest r seen] by (cases "rest = []") auto
  then have "q = r" using more by (simp add: cancel_loop.simps)
  with step tag rest len final show ?r by (auto simp: cancel_field_iff k_sha256_bytes_def)
next
  assume ?r
  then obtain tag body x where len: "length bs \<le> 34" and parts: "varint bs = Inr (tag, body)"
      "read_bytes 32 body = Inr (x, [])" "length x \<in> {0, 32}"
    and r: "tag = 10 \<and> r = \<lparr>cr_ticket = x, cr_idempotency_key = []\<rparr> \<or>
      tag = 18 \<and> r = \<lparr>cr_ticket = [], cr_idempotency_key = x\<rparr>" by blast
  have "bs \<noteq> []" using parts(1) by (auto simp: varint_empty)
  moreover have "cancel_loop (\<lparr>cr_ticket = [], cr_idempotency_key = []\<rparr>, 0) bs = Inr (r, if tag = 10 then 1 else 2)"
    using parts r \<open>bs \<noteq> []\<close>
    by (subst cancel_loop.simps)
      (auto simp: cancel_field_def cancel_expect read_into_def Let_def k_sha256_bytes_def cancel_loop.simps [of _ "[]"])
  ultimately show ?l using len parts(3) r by (auto simp: parse_cancel_request_def k_sha256_bytes_def)
qed

theorem parse_cancel_request_one_identity_witness:
  "parse_cancel_request ([0x12, 32] @ replicate 32 3) = Inr \<lparr>cr_ticket = [], cr_idempotency_key = replicate 32 3\<rparr> \<and>
   \<not> is_ok (parse_cancel_request [0x0a, 0, 0x12, 0])"
proof
  have "varint ([0x12, 32] @ replicate 32 3) = Inr (18, 32 # replicate 32 3)"
    and "read_bytes 32 (32 # replicate 32 3) = Inr (replicate 32 3, [])" by code_simp+
  then show "parse_cancel_request ([0x12, 32] @ replicate 32 3) = Inr \<lparr>cr_ticket = [], cr_idempotency_key = replicate 32 3\<rparr>"
    unfolding parse_cancel_request_one_identity by simp
  have "varint [0x0a, 0, 0x12, 0] = Inr (10, [0, 0x12, 0])" and "read_bytes 32 [0, 0x12, 0] = Inr ([], [0x12, 0])"
    by code_simp+
  then show "\<not> is_ok (parse_cancel_request [0x0a, 0, 0x12, 0])"
    unfolding is_ok_iff parse_cancel_request_one_identity by simp
qed

section \<open>Aliased field numbers\<close>

text \<open>The field number is truncated to 32 bits before it is checked, so a tag whose field number is
  \<open>2 ^ 32 + k\<close> is taken for field \<open>k\<close>.\<close>

definition alias_bit :: u64 where
  "alias_bit = 2 ^ 35"

lemma bit_alias_bit: "bit alias_bit j \<longleftrightarrow> j = 35"
  unfolding alias_bit_def bit_exp_iff by auto

lemma tag_alias: "tag_field (tag OR alias_bit) = tag_field tag" "tag_wire (tag OR alias_bit) = tag_wire tag"
  unfolding tag_field_def tag_wire_def
  by (rule bit_word_eqI;
      auto simp: bit_ucast_iff bit_drop_bit_eq bit_or_iff bit_and_iff bit_alias_bit bit_7
      simp del: bit_numeral_word_iff)+

lemma execute_field_alias: "execute_field (tag OR alias_bit) st bs = execute_field tag st bs"
  by (simp only: execute_field_def expect_field_def tag_alias)

text \<open>
  C28: The field number is truncated to 32 bits before it is checked: an execute request whose
  first tag has field number 2^32 + 1 is parsed as if it were field 1.
\<close>

theorem parse_execute_request_alias:
  assumes "execute_bounded r" and "length (er_query_id r) = 16"
    and "length (er_idempotency_key r) = 32"
  shows "parse_execute_request
      (varint_bytes (8 OR alias_bit) @ varint_bytes (ucast (er_protocol_version r)) @
       encode_fields (tl (execute_fields r))) = Inr r"
proof -
  let ?body = "varint_bytes (ucast (er_protocol_version r))"
    and ?rest = "encode_fields (tl (execute_fields r))" and ?st = "(empty_execute_request, 0)"
  have plain: "encode_fields (execute_fields r) = varint_bytes 8 @ ?body @ ?rest"
    by (simp add: execute_fields_def)
  have "parse_execute_request (encode_fields (execute_fields r)) = Inr r"
    using parse_execute_fields [OF assms distinct_execute_fields refl] .
  then have loop: "execute_loop ?st (varint_bytes 8 @ ?body @ ?rest) = Inr (r, 0x7ff)"
    unfolding plain by (rule parse_execute_InrD)
  have "execute_loop ?st (varint_bytes (8 OR alias_bit) @ ?body @ ?rest) =
      execute_loop ?st (varint_bytes 8 @ ?body @ ?rest)"
    by (simp only: execute_loop.simps [of ?st] varint_append_varint bindR_Inr prod.case
        execute_field_alias append_is_Nil_conv varint_bytes_nonempty simp_thms if_False)
  then have "execute_loop ?st (varint_bytes (8 OR alias_bit) @ ?body @ ?rest) = Inr (r, 0x7ff)"
    using loop by (simp only:)
  moreover have "length (varint_bytes (8 OR alias_bit) @ ?body @ ?rest) \<le>
      k_max_plan_bytes + k_max_native_result_schema_bytes + 4096"
    using execute_fields_length [OF assms(1)] varint_bytes_length [of "8 OR alias_bit"]
    unfolding plain length_append by linarith
  ultimately show ?thesis
    using assms(2,3) unfolding parse_execute_request_def k_sha256_bytes_def
    by (simp del: power_numeral)
qed

theorem parse_execute_request_alias_witness:
  "parse_execute_request
      (varint_bytes (8 OR alias_bit) @ varint_bytes (ucast (er_protocol_version demo_request)) @
       encode_fields (tl (execute_fields demo_request))) = Inr demo_request"
  by (rule parse_execute_request_alias [OF demo_request_bounded])

text \<open>A field that is present and empty is accepted, although the message asks for one 32-byte identity.\<close>

lemma parse_cancel_request_empty_identity:
  "parse_cancel_request [0x0a, 0x00] = Inr \<lparr>cr_ticket = [], cr_idempotency_key = []\<rparr>"
  by (simp add: parse_cancel_request_def cancel_loop.simps cancel_field_def varint_def
      varint_loop.simps expect_field_def tag_field_def read_into_def read_bytes_def k_sha256_bytes_def
      Let_def)

section \<open>Native batch frames\<close>

lemma frame_header:
  "ucast (k_native_batch_codec_version AND 0xff) = (1 :: byte)"
  "ucast (drop_bit 8 k_native_batch_codec_version AND 0xff) = (0 :: byte)"
  "length mob1_magic = 4"
  by (simp_all add: k_native_batch_codec_version_def mob1_magic_def)

lemma load_u16_pair: "load_le 2 (b0 # b1 # bs) 0 = (ucast b0 OR push_bit 8 (ucast b1) :: u16)"
  by (simp add: load_le_def eval_nat_numeral)

lemma frame_parts:
  fixes frame_seq size :: u64 and payload :: bytes
  defines "bs \<equiv> mob1_magic @ [1, 0, 0, 0] @ store_le 8 frame_seq @ store_le 8 size @ payload"
  shows "take 4 bs = mob1_magic" and "(load_le 2 bs 4 :: u16) = 1" and "(load_le 2 bs 6 :: u16) = 0"
    and "load_le 8 bs 8 = frame_seq" and "load_le 8 bs 16 = size" and "drop 24 bs = payload"
    and "length bs = 24 + length payload"
proof -
  show "take 4 bs = mob1_magic" "drop 24 bs = payload" "length bs = 24 + length payload"
    by (simp_all add: bs_def frame_header)
  show "(load_le 2 bs 4 :: u16) = 1"
    using load_le_append2 [of 2 mob1_magic _ 0, where ?'a = 16] by (simp add: bs_def frame_header load_u16_pair)
  show "(load_le 2 bs 6 :: u16) = 0"
    using load_le_append2 [of 2 "mob1_magic @ [1, 0]" _ 0, where ?'a = 16]
    by (simp add: bs_def frame_header load_u16_pair)
  show "load_le 8 bs 8 = frame_seq"
    using load_le_append2 [of 8 "mob1_magic @ [1, 0, 0, 0]" _ 0, where ?'a = 64]
    by (simp add: bs_def frame_header load_le_append1)
  show "load_le 8 bs 16 = size"
    using load_le_append2 [of 8 "mob1_magic @ [1, 0, 0, 0] @ store_le 8 frame_seq" _ 0, where ?'a = 64]
    by (simp add: bs_def frame_header load_le_append1)
qed

text \<open>
  C23: Parsing a serialized MOB1 frame gives back its sequence number and payload, for every non-
  zero sequence and every non-empty payload up to 4 MiB.
\<close>

theorem native_batch_frame_roundtrip:
  assumes "frame_seq \<noteq> 0" and "payload \<noteq> []" and "length payload \<le> 4194304"
  shows "bindR (serialize_native_batch_frame frame_seq payload) parse_native_batch_frame =
    Inr \<lparr>nf_sequence = frame_seq, nf_payload = payload\<rparr>"
proof -
  let ?size = "of_nat (length payload) :: u64"
  have size: "unat ?size = length payload" using assms(3) by (intro unat_of_nat_u64) simp
  then have nz: "?size \<noteq> 0" using assms(2) by (metis length_0_conv unat_0)
  have le: "\<not> ?size > k_max_stream_input_batch_bytes"
    using assms(3) by (simp add: word_less_nat_alt size k_max_stream_input_batch_bytes_def)
  show ?thesis
    using assms(1,2) size nz le frame_parts [of frame_seq ?size payload]
    by (simp add: serialize_native_batch_frame_def parse_native_batch_frame_def frame_header
        k_native_batch_codec_version_def k_native_batch_frame_header_bytes_def del: append.simps)
qed

theorem native_batch_frame_roundtrip_witness:
  "bindR (serialize_native_batch_frame 1 [42]) parse_native_batch_frame =
    Inr \<lparr>nf_sequence = 1, nf_payload = [42]\<rparr>"
  by (rule native_batch_frame_roundtrip) simp_all

lemma ucast_u16_eq_1: "(ucast (v :: u16) :: u32) = 1 \<longleftrightarrow> v = 1"
proof
  assume "(ucast v :: u32) = 1"
  then have "(ucast (ucast v :: u32) :: u16) = ucast (1 :: u32)" by simp
  moreover have "(ucast (ucast v :: u32) :: u16) = v"
    by (rule bit_word_eqI) (auto simp: bit_ucast_iff)
  ultimately show "v = 1" by simp
qed simp

lemma frame_slices:
  fixes bs :: bytes
  assumes "24 \<le> length bs"
  shows "bs = take 4 bs @ store_le 2 (load_le 2 bs 4 :: u16) @ store_le 2 (load_le 2 bs 6 :: u16) @
    store_le 8 (load_le 8 bs 8 :: u64) @ store_le 8 (load_le 8 bs 16 :: u64) @ drop 24 bs"
proof -
  have slice: "store_le n (load_le n bs off :: 'a::len word) = take n (drop off bs)"
    if "off + n \<le> length bs" "n * 8 \<le> LENGTH('a)" for n off
  proof -
    have "(load_le n bs off :: 'a word) = load_le n (take n (drop off bs)) 0"
      using that by (simp add: load_le_drop [of off] load_le_take [of n "drop off bs"])
    then show ?thesis using that by (simp add: store_le_load_le)
  qed
  have split: "drop off bs = take n (drop off bs) @ drop (off + n) bs" for off n
    by (metis append_take_drop_id drop_drop add.commute)
  have "bs = take 4 bs @ drop 4 bs" by simp
  also have "drop 4 bs = take 2 (drop 4 bs) @ drop 6 bs" using split [of 4 2] by simp
  also have "drop 6 bs = take 2 (drop 6 bs) @ drop 8 bs" using split [of 6 2] by simp
  also have "drop 8 bs = take 8 (drop 8 bs) @ drop 16 bs" using split [of 8 8] by simp
  also have "drop 16 bs = take 8 (drop 16 bs) @ drop 24 bs" using split [of 16 8] by simp
  finally show ?thesis using assms by (simp add: slice)
qed

text \<open>
  C24: Every frame the parser accepts is exactly the serialization of what it was parsed to: there
  is no second encoding of a frame.
\<close>

theorem native_batch_frame_canonical:
  assumes "parse_native_batch_frame bs = Inr f"
  shows "serialize_native_batch_frame (nf_sequence f) (nf_payload f) = Inr bs"
proof -
  let ?seq = "load_le 8 bs 8 :: u64" and ?size = "load_le 8 bs 16 :: u64"
  from assms have len: "24 \<le> length bs" and magic: "take 4 bs = mob1_magic"
    and version: "(load_le 2 bs 4 :: u16) = 1" and flags: "(load_le 2 bs 6 :: u16) = 0"
    and nz: "?seq \<noteq> 0" "?size \<noteq> 0" and size: "unat ?size = length bs - 24"
    and f: "f = \<lparr>nf_sequence = ?seq, nf_payload = drop 24 bs\<rparr>"
    by (auto simp: parse_native_batch_frame_def k_native_batch_frame_header_bytes_def
        k_native_batch_codec_version_def ucast_u16_eq_1 Let_def split: if_splits)
  have "drop 24 bs \<noteq> []" using nz(2) size by (metis drop_eq_Nil2 diff_is_0_eq unat_0_iff)
  moreover have "of_nat (length (drop 24 bs)) = ?size"
    using size by (metis length_drop of_nat_unat ucast_id)
  moreover have "bs = mob1_magic @ [1, 0, 0, 0] @ store_le 8 ?seq @ store_le 8 ?size @ drop 24 bs"
  proof -
    have "store_le 2 (1 :: u16) = [1, 0]" "store_le 2 (0 :: u16) = [0, 0]"
      by (simp_all add: store_le_def eval_nat_numeral)
    then show ?thesis using frame_slices [OF len] by (simp add: magic version flags)
  qed
  ultimately show ?thesis
    using nz(1) by (simp add: serialize_native_batch_frame_def f frame_header)
qed

lemma demo_frame_parses:
  "parse_native_batch_frame (mob1_magic @ [1, 0, 0, 0] @ store_le 8 (5 :: u64) @ store_le 8 (1 :: u64) @ [42]) =
    Inr \<lparr>nf_sequence = 5, nf_payload = [42]\<rparr>"
  by code_simp

theorem native_batch_frame_canonical_witness:
  "serialize_native_batch_frame 5 [42] =
    Inr (mob1_magic @ [1, 0, 0, 0] @ store_le 8 (5 :: u64) @ store_le 8 (1 :: u64) @ [42])"
  using native_batch_frame_canonical [OF demo_frame_parses] by simp

section \<open>Canonical reads\<close>

definition tae_read_fields :: "tae_read \<Rightarrow> wire_field list" where
  "tae_read_fields r =
     opt_uint 1 (tr_protocol_version r) @ opt_uint 2 (tr_feature_bits r) @
     opt_bytes 3 (tr_read_ref r) @ opt_bytes 4 (tr_query_id r) @
     Uint_field 5 (tr_account_id r) # opt_uint 6 (tr_table_id r) @
     opt_bytes 7 (tr_snapshot_ts r) @ opt_bytes 8 (tr_schema_digest r) @
     opt_bytes 9 (tr_manifest_sha256 r) @ opt_bytes 10 (tr_capability_hash r) @
     opt_uint 11 (tr_expires_at_unix_ms r) @ opt_uint 12 (tr_database_id r) @ []"

definition wf_tae_read :: "tae_read \<Rightarrow> bool" where
  "wf_tae_read r \<longleftrightarrow>
     length (tr_read_ref r) < 2 ^ 64 \<and> length (tr_query_id r) < 2 ^ 64 \<and>
     length (tr_snapshot_ts r) < 2 ^ 64 \<and> length (tr_schema_digest r) < 2 ^ 64 \<and>
     length (tr_manifest_sha256 r) < 2 ^ 64 \<and> length (tr_capability_hash r) < 2 ^ 64"

lemma serialize_tae_read_fields: "serialize_tae_read r = encode_fields (tae_read_fields r)"
  by (simp add: serialize_tae_read_def Let_def tae_read_fields_def append_encode_fields)

lemma tae_read_values:
  "uint_value 1 (tae_read_fields r) = tr_protocol_version r"
  "uint_value 2 (tae_read_fields r) = tr_feature_bits r"
  "bytes_value 3 (tae_read_fields r) = tr_read_ref r"
  "bytes_value 4 (tae_read_fields r) = tr_query_id r"
  "uint_value 5 (tae_read_fields r) = tr_account_id r"
  "uint_value 6 (tae_read_fields r) = tr_table_id r"
  "bytes_value 7 (tae_read_fields r) = tr_snapshot_ts r"
  "bytes_value 8 (tae_read_fields r) = tr_schema_digest r"
  "bytes_value 9 (tae_read_fields r) = tr_manifest_sha256 r"
  "bytes_value 10 (tae_read_fields r) = tr_capability_hash r"
  "uint_value 11 (tae_read_fields r) = tr_expires_at_unix_ms r"
  "uint_value 12 (tae_read_fields r) = tr_database_id r"
  unfolding tae_read_fields_def field_value_simps by simp_all

text \<open>
  C25: The canonical encoding of a TAE read is injective, so a digest over it identifies all
  twelve fields of the read.
\<close>

theorem serialize_tae_read_inj:
  assumes "wf_tae_read r" and "wf_tae_read s" and "serialize_tae_read r = serialize_tae_read s"
  shows "r = s"
proof -
  have eq: "tae_read_fields r = tae_read_fields s"
    using assms unfolding serialize_tae_read_fields
    by (intro encode_fields_inj) (simp_all add: tae_read_fields_def wf_tae_read_def)
  show ?thesis
    by (rule tae_read.equality) (simp_all add: tae_read_values [of s] eq flip: tae_read_values [of r])
qed

definition demo_tae_read :: tae_read where
  "demo_tae_read =
     \<lparr>tr_protocol_version = 2, tr_feature_bits = 0, tr_read_ref = [1], tr_query_id = replicate 16 9,
      tr_account_id = 0, tr_table_id = 7, tr_snapshot_ts = [3], tr_schema_digest = [4],
      tr_manifest_sha256 = [5], tr_capability_hash = [6], tr_expires_at_unix_ms = 1, tr_database_id = 2\<rparr>"

theorem serialize_tae_read_inj_witness:
  "serialize_tae_read demo_tae_read \<noteq> serialize_tae_read (demo_tae_read\<lparr>tr_account_id := 1\<rparr>)"
  using serialize_tae_read_inj [of demo_tae_read "demo_tae_read\<lparr>tr_account_id := 1\<rparr>"]
  by (auto simp: wf_tae_read_def demo_tae_read_def)

definition stream_read_fields :: "stream_read \<Rightarrow> wire_field list" where
  "stream_read_fields r =
     opt_uint 1 (sr_protocol_version r) @ opt_uint 2 (sr_feature_bits r) @
     opt_bytes 3 (sr_stream_ref r) @ opt_bytes 4 (sr_query_id r) @
     Uint_field 5 (sr_account_id r) # opt_bytes 6 (sr_snapshot_ts r) @
     opt_bytes 7 (sr_schema_digest r) @ opt_bytes 8 (sr_capability_hash r) @
     opt_uint 9 (sr_expires_at_unix_ms r) @ []"

definition wf_stream_read :: "stream_read \<Rightarrow> bool" where
  "wf_stream_read r \<longleftrightarrow>
     length (sr_stream_ref r) < 2 ^ 64 \<and> length (sr_query_id r) < 2 ^ 64 \<and>
     length (sr_snapshot_ts r) < 2 ^ 64 \<and> length (sr_schema_digest r) < 2 ^ 64 \<and>
     length (sr_capability_hash r) < 2 ^ 64"

lemma serialize_stream_read_fields: "serialize_stream_read r = encode_fields (stream_read_fields r)"
  by (simp add: serialize_stream_read_def Let_def stream_read_fields_def append_encode_fields)

lemma stream_read_values:
  "uint_value 1 (stream_read_fields r) = sr_protocol_version r"
  "uint_value 2 (stream_read_fields r) = sr_feature_bits r"
  "bytes_value 3 (stream_read_fields r) = sr_stream_ref r"
  "bytes_value 4 (stream_read_fields r) = sr_query_id r"
  "uint_value 5 (stream_read_fields r) = sr_account_id r"
  "bytes_value 6 (stream_read_fields r) = sr_snapshot_ts r"
  "bytes_value 7 (stream_read_fields r) = sr_schema_digest r"
  "bytes_value 8 (stream_read_fields r) = sr_capability_hash r"
  "uint_value 9 (stream_read_fields r) = sr_expires_at_unix_ms r"
  unfolding stream_read_fields_def field_value_simps by simp_all

lemma serialize_stream_read_inj:
  assumes "wf_stream_read r" and "wf_stream_read s"
    and "serialize_stream_read r = serialize_stream_read s"
  shows "r = s"
proof -
  have eq: "stream_read_fields r = stream_read_fields s"
    using assms unfolding serialize_stream_read_fields
    by (intro encode_fields_inj) (simp_all add: stream_read_fields_def wf_stream_read_def)
  show ?thesis
    by (rule stream_read.equality)
      (simp_all add: stream_read_values [of s] eq flip: stream_read_values [of r])
qed

section \<open>Acknowledgements\<close>

definition ack_fields :: "upload_input_ack \<Rightarrow> wire_field list" where
  "ack_fields a =
     opt_uint 1 (ack_batches a) @ opt_uint 2 (ack_rows a) @ opt_uint 3 (ack_bytes a) @
     opt_uint 4 (of_bool (ack_complete a)) @ opt_uint 5 (of_bool (ack_not_needed a)) @
     opt_uint 6 (of_bool (ack_ready a)) @ []"

lemma serialize_ack_fields: "serialize_upload_input_ack a = encode_fields (ack_fields a)"
  by (simp add: serialize_upload_input_ack_def Let_def ack_fields_def append_encode_fields opt_uint_def)

lemma ack_values:
  "uint_value 1 (ack_fields a) = ack_batches a"
  "uint_value 2 (ack_fields a) = ack_rows a"
  "uint_value 3 (ack_fields a) = ack_bytes a"
  "uint_value 4 (ack_fields a) = of_bool (ack_complete a)"
  "uint_value 5 (ack_fields a) = of_bool (ack_not_needed a)"
  "uint_value 6 (ack_fields a) = of_bool (ack_ready a)"
  unfolding ack_fields_def field_value_simps by simp_all

lemma serialize_upload_input_ack_inj:
  "serialize_upload_input_ack a = serialize_upload_input_ack b \<longleftrightarrow> a = b"
proof
  assume "serialize_upload_input_ack a = serialize_upload_input_ack b"
  then have eq: "ack_fields a = ack_fields b"
    unfolding serialize_ack_fields by (intro encode_fields_inj) (simp_all add: ack_fields_def)
  have bool: "(of_bool p :: u64) = of_bool q \<Longrightarrow> p = q" for p q by (cases p; cases q) simp_all
  show "a = b"
    by (rule upload_input_ack.equality)
      (simp_all add: ack_values [of b] eq bool flip: ack_values [of a])
qed simp

section \<open>Digests and hex\<close>

lemma length_hex: "length (hex bs) = 2 * length bs"
  by (induction bs) (simp_all add: hex_def)

lemma hex_Cons: "hex (b # bs) = hex_digits ! unat (drop_bit 4 b) # hex_digits ! unat (b AND 0xf) # hex bs"
  by (simp add: hex_def)

lemma distinct_hex_digits: "distinct hex_digits" "length hex_digits = 16"
  by (simp_all add: hex_digits_def)

lemma nibble_bounds: "unat (drop_bit 4 (b :: byte)) < 16" "unat (b AND 0xf) < 16"
proof -
  have "unat b < 256" using unsigned_less [of b, where 'a = nat] by simp
  then show "unat (drop_bit 4 b) < 16" by (simp only: unat_drop_bit_div) simp
  have "b AND 0xf \<le> 0xf" by (rule word_and_le1)
  then show "unat (b AND 0xf) < 16" by (simp add: word_le_nat_alt)
qed

lemma nibbles_inj:
  fixes a b :: byte
  assumes "drop_bit 4 a = drop_bit 4 b" and "a AND 0xf = b AND 0xf"
  shows "a = b"
proof (rule bit_word_eqI)
  have mask: "(0xf :: byte) = mask 4" by (simp add: mask_eq_exp_minus_1)
  fix n assume "n < LENGTH(8)"
  show "bit a n = bit b n"
  proof (cases "n < 4")
    case True
    then have "bit a n = bit (a AND 0xf) n" "bit b n = bit (b AND 0xf) n"
      unfolding mask by (simp_all add: bit_and_iff bit_mask_iff)
    with assms(2) show ?thesis by simp
  next
    case False
    then have "bit a n = bit (drop_bit 4 a) (n - 4)" "bit b n = bit (drop_bit 4 b) (n - 4)"
      by (simp_all add: bit_drop_bit_eq)
    with assms(1) show ?thesis by simp
  qed
qed

lemma hex_inj: "hex xs = hex ys \<longleftrightarrow> xs = ys"
proof
  show "hex xs = hex ys \<Longrightarrow> xs = ys"
  proof (induction xs arbitrary: ys)
    case Nil
    then show ?case by (cases ys) (simp_all add: hex_Cons, simp add: hex_def)
  next
    case (Cons x xs)
    from Cons.prems have "length (hex (x # xs)) = length (hex ys)" by simp
    then obtain y ys' where ys: "ys = y # ys'" by (cases ys) (simp_all add: length_hex)
    have idx: "hex_digits ! i = hex_digits ! j \<longleftrightarrow> i = j" if "i < 16" "j < 16" for i j
      using that distinct_hex_digits by (simp add: nth_eq_iff_index_eq)
    from Cons.prems have "drop_bit 4 x = drop_bit 4 y" "x AND 0xf = y AND 0xf" "hex xs = hex ys'"
      unfolding ys hex_Cons by (simp_all add: idx nibble_bounds word_unat_eq_iff)
    then show ?case using Cons.IH ys nibbles_inj by blast
  qed
qed simp

text \<open>Distinct identities have distinct idempotency keys, as far as the digest is collision-free on
  the 24-byte identity strings.\<close>

definition collision_free :: "(bytes \<Rightarrow> evp_result) \<Rightarrow> nat \<Rightarrow> bool" where
  "collision_free evp n \<longleftrightarrow>
     (\<forall>x y d. length x = n \<longrightarrow> length y = n \<longrightarrow> evp x = Evp_digest d \<longrightarrow> evp y = Evp_digest d \<longrightarrow> x = y)"

text \<open>
  C26: Two executions with the same idempotency key have the same account and query id, provided
  the digest is collision-free on 24-byte strings.
\<close>

theorem execution_idempotency_key_identity:
  assumes "collision_free evp 24" and "execution_idempotency_key evp a q = Inr k" and "execution_idempotency_key evp a' q' = Inr k"
  shows "a = a' \<and> q = q'"
proof -
  have "evp (store_le 8 a @ q) = Evp_digest k" "evp (store_le 8 a' @ q') = Evp_digest k"
    using assms(2,3)
    by (auto simp: execution_idempotency_key_def sha256_bytes_def sha256_def
        split: if_splits evp_result.splits)
  moreover have "length (store_le 8 a @ q) = 24" "length (store_le 8 a' @ q') = 24"
    using assms(2,3) by (auto simp: execution_idempotency_key_def split: if_splits)
  ultimately have "store_le 8 a @ q = store_le 8 a' @ q'"
    using assms(1) unfolding collision_free_def by blast
  then have "store_le 8 a = store_le 8 a'" and "q = q'" by simp_all
  moreover have "a = a'" using \<open>store_le 8 a = store_le 8 a'\<close> by (rule store_le_inj) simp
  ultimately show ?thesis by simp
qed

text \<open>A digest that is collision-free on 24-byte strings: padding to 32 bytes.\<close>

definition demo_evp :: "bytes \<Rightarrow> evp_result" where
  "demo_evp bs = Evp_digest (take 32 (bs @ replicate 8 0))"

theorem execution_idempotency_key_identity_witness:
  "execution_idempotency_key demo_evp 1 (replicate 16 9) \<noteq> execution_idempotency_key demo_evp 2 (replicate 16 9)"
proof -
  have "collision_free demo_evp 24"
    by (auto simp: collision_free_def demo_evp_def)
  moreover obtain k where "execution_idempotency_key demo_evp 1 (replicate 16 9) = Inr k"
    by (simp add: execution_idempotency_key_def sha256_bytes_def sha256_def demo_evp_def
        k_sha256_bytes_def)
  ultimately show ?thesis
    using execution_idempotency_key_identity [of demo_evp 1 "replicate 16 9" k 2 "replicate 16 9"] by auto
qed

end
