(* ===== verification/Machines.thy ===== *)
theory Machines
  imports Prelude
begin

text \<open>
  Interfaces of the concurrent parts.  A component is a set of initial states and a step relation
  whose steps are its critical sections; \<open>reachable\<close> is what any interleaving of them can produce.
  \<open>system_invariant\<close> is the contract of an invariant that every step keeps, \<open>latch\<close> the contract of a
  value that is set at most once (\<open>first terminal status wins\<close>), \<open>simulation\<close> the contract of a
  component whose every step is some steps of a more abstract one.
\<close>

inductive reachable :: "('s \<Rightarrow> bool) \<Rightarrow> ('s \<Rightarrow> 's \<Rightarrow> bool) \<Rightarrow> 's \<Rightarrow> bool" for init step where
  initially: "init s \<Longrightarrow> reachable init step s"
| stepwise: "reachable init step s \<Longrightarrow> step s t \<Longrightarrow> reachable init step t"

lemma reachable_steps: "step\<^sup>*\<^sup>* s t \<Longrightarrow> reachable init step s \<Longrightarrow> reachable init step t"
  by (induction rule: rtranclp_induct) (auto intro: stepwise)

locale system_invariant =
  fixes init :: "'s \<Rightarrow> bool" and step :: "'s \<Rightarrow> 's \<Rightarrow> bool" and inv :: "'s \<Rightarrow> bool"
  assumes init_inv: "init s \<Longrightarrow> inv s"
    and step_inv: "inv s \<Longrightarrow> step s t \<Longrightarrow> inv t"
begin

lemma reachable_inv: "reachable init step s \<Longrightarrow> inv s"
  by (induction rule: reachable.induct) (auto intro: init_inv step_inv)

end

text \<open>A latch: once \<open>latched\<close> is \<open>Some v\<close>, no step changes it, as long as the invariant holds.\<close>

locale latch = system_invariant init step inv
  for init :: "'s \<Rightarrow> bool" and step and inv +
  fixes latched :: "'s \<Rightarrow> 'v option"
  assumes kept: "inv s \<Longrightarrow> step s t \<Longrightarrow> latched s = Some v \<Longrightarrow> latched t = Some v"
begin

lemma latched_forever:
  assumes "step\<^sup>*\<^sup>* s t" and "reachable init step s" and "latched s = Some v"
  shows "latched t = Some v"
  using assms
proof (induction rule: rtranclp_induct)
  case (step t u)
  then have "inv t" using reachable_steps reachable_inv by metis
  with step show ?case using kept by blast
qed

end

text \<open>A simulation: \<open>abs\<close> maps every concrete step to zero or more abstract ones.\<close>

locale simulation =
  fixes cinit :: "'c \<Rightarrow> bool" and cstep :: "'c \<Rightarrow> 'c \<Rightarrow> bool"
    and ainit :: "'a \<Rightarrow> bool" and astep :: "'a \<Rightarrow> 'a \<Rightarrow> bool" and abs :: "'c \<Rightarrow> 'a"
  assumes abs_init: "cinit s \<Longrightarrow> ainit (abs s)"
    and abs_step: "cstep s t \<Longrightarrow> astep\<^sup>*\<^sup>* (abs s) (abs t)"
begin

lemma reachable_abs: "reachable cinit cstep s \<Longrightarrow> reachable ainit astep (abs s)"
  by (induction rule: reachable.induct)
    (auto intro: reachable.initially abs_init reachable_steps dest: abs_step)

end

end
