(* ===== verification/Admission.thy ===== *)
theory Admission
  imports Protocol Machines
begin

text \<open>
  The admission accounting of \<^verbatim>\<open>stream_admission.hpp\<close> and \<^verbatim>\<open>stream_admission.cpp\<close>: the checked
  64-bit arithmetic of the execution charge, the controller's counters, and the move-only leases.
  Lease objects live in a store indexed by object identity, so that moves and destructions are
  explicit; one step of the machine is one critical section of the controller's mutex.
\<close>

section \<open>The charge of one execution\<close>

definition adm_alignment :: u64 where "adm_alignment = 64 * 1024"
definition transport_overhead :: u64 where "transport_overhead = 64 * 1024"
definition expanded_input_bytes :: u64 where "expanded_input_bytes = 64 * 1024 * 1024"

definition u64_max :: u64 where "u64_max = 0xffffffffffffffff"

definition checked_add :: "u64 \<Rightarrow> u64 \<Rightarrow> u64 res" where
  "checked_add l r =
     (if r > u64_max - l then Inl (Overflow_error ''stream admission charge overflow'') else Inr (l + r))"

definition checked_multiply :: "u64 \<Rightarrow> u64 \<Rightarrow> u64 res" where
  "checked_multiply l r =
     (if l \<noteq> 0 \<and> r > u64_max div l then Inl (Overflow_error ''stream admission charge overflow'')
      else Inr (l * r))"

definition align :: "u64 \<Rightarrow> u64 res" where
  "align n = bindR (checked_add n (adm_alignment - 1)) (\<lambda>s. checked_multiply (s div adm_alignment) adm_alignment)"

definition stream_execution_charge :: "execute_request \<Rightarrow> nat \<Rightarrow> u64 res" where
  "stream_execution_charge request stream_inputs =
     (if stream_inputs > k_max_stream_inputs
      then Inl (Invalid_argument ''stream input count exceeds admission bound'')
      else
        bindR (checked_add (er_max_input_batch_bytes request) (of_nat k_native_batch_frame_header_bytes)) (\<lambda>a.
        bindR (checked_add a transport_overhead) (\<lambda>b.
        bindR (align b) (\<lambda>input_frame.
        bindR (checked_multiply 2 input_frame) (\<lambda>d.
        bindR (checked_add d expanded_input_bytes) (\<lambda>per_read.
        bindR (checked_add (er_max_batch_bytes request) transport_overhead) (\<lambda>e.
        bindR (align e) (\<lambda>f.
        bindR (checked_multiply 2 f) (\<lambda>result_bytes.
        bindR (checked_add (of_nat (length (er_plan request)))
                           (of_nat (length (er_result_schema request)))) (\<lambda>request_bytes.
        bindR (checked_add request_bytes transport_overhead) (\<lambda>g.
        bindR (align g) (\<lambda>h.
        bindR (checked_multiply 2 h) (\<lambda>request_overlap.
        bindR (checked_multiply (of_nat stream_inputs) per_read) (\<lambda>i.
        bindR (checked_add i result_bytes) (\<lambda>j.
        checked_add j request_overlap)))))))))))))))"

section \<open>Controller and leases\<close>

record stream_admission_controller =
  capacity_bytes :: u64
  current_bytes :: u64
  peak_bytes :: u64
  rejected_requests :: u64

text \<open>\<^verbatim>\<open>owner_\<close> is null or points to the one controller.\<close>

record lease =
  lease_owned :: bool
  lease_bytes :: u64

definition null_lease :: lease where
  "null_lease = \<lparr>lease_owned = False, lease_bytes = 0\<rparr>"

definition new_controller :: "u64 \<Rightarrow> stream_admission_controller" where
  "new_controller capacity =
     \<lparr>capacity_bytes = capacity, current_bytes = 0, peak_bytes = 0, rejected_requests = 0\<rparr>"

definition try_acquire ::
  "stream_admission_controller \<Rightarrow> u64 \<Rightarrow> stream_admission_controller \<times> lease option" where
  "try_acquire c n =
     (if n > capacity_bytes c - min (capacity_bytes c) (current_bytes c)
      then (c\<lparr>rejected_requests := rejected_requests c + 1\<rparr>, None)
      else
        let c' = c\<lparr>current_bytes := current_bytes c + n\<rparr> in
        (c'\<lparr>peak_bytes := max (peak_bytes c') (current_bytes c')\<rparr>,
         Some \<lparr>lease_owned = True, lease_bytes = n\<rparr>))"

definition release :: "stream_admission_controller \<Rightarrow> u64 \<Rightarrow> stream_admission_controller" where
  "release c n = c\<lparr>current_bytes := (if n > current_bytes c then 0 else current_bytes c - n)\<rparr>"

definition controller_shrink ::
  "stream_admission_controller \<Rightarrow> u64 \<Rightarrow> u64 \<Rightarrow> stream_admission_controller res" where
  "controller_shrink c from_n to_n =
     (if from_n < to_n \<or> from_n - to_n > current_bytes c
      then Inl (Logic_error ''invalid stream admission shrink'')
      else Inr (c\<lparr>current_bytes := current_bytes c - (from_n - to_n)\<rparr>))"

definition lease_reset ::
  "stream_admission_controller \<Rightarrow> lease \<Rightarrow> stream_admission_controller \<times> lease" where
  "lease_reset c l = (if lease_owned l then (release c (lease_bytes l), null_lease) else (c, l))"

definition lease_shrink ::
  "stream_admission_controller \<Rightarrow> lease \<Rightarrow> u64 \<Rightarrow> (stream_admission_controller \<times> lease) res" where
  "lease_shrink c l n =
     (if \<not> lease_owned l \<or> n > lease_bytes l
      then Inl (Invalid_argument ''stream admission lease can only shrink'')
      else bindR (controller_shrink c (lease_bytes l) n) (\<lambda>c'. Inr (c', l\<lparr>lease_bytes := n\<rparr>)))"

section \<open>The machine of lease objects\<close>

record admission_state =
  adm_controller :: stream_admission_controller
  adm_leases :: "nat \<rightharpoonup> lease"

text \<open>
  The operations on lease objects: a successful \<^verbatim>\<open>try_acquire\<close> constructs a new object, a refused one
  none; the move constructor empties its source; move assignment resets its target first, unless it
  is a self-assignment; \<^verbatim>\<open>shrink\<close> may throw and then changes nothing; the destructor resets.
\<close>

inductive admission_step :: "admission_state \<Rightarrow> admission_state \<Rightarrow> bool" where
  acquire:
    "\<lbrakk> adm_leases s i = None; try_acquire (adm_controller s) n = (c, Some l) \<rbrakk> \<Longrightarrow>
     admission_step s (s\<lparr>adm_controller := c, adm_leases := (adm_leases s)(i \<mapsto> l)\<rparr>)"
| refuse:
    "try_acquire (adm_controller s) n = (c, None) \<Longrightarrow> admission_step s (s\<lparr>adm_controller := c\<rparr>)"
| move_construct:
    "\<lbrakk> adm_leases s src = Some l; adm_leases s dst = None \<rbrakk> \<Longrightarrow>
     admission_step s (s\<lparr>adm_leases := (adm_leases s)(src \<mapsto> null_lease, dst \<mapsto> l)\<rparr>)"
| move_assign:
    "\<lbrakk> adm_leases s src = Some l; adm_leases s dst = Some old; src \<noteq> dst;
       lease_reset (adm_controller s) old = (c, _) \<rbrakk> \<Longrightarrow>
     admission_step s (s\<lparr>adm_controller := c, adm_leases := (adm_leases s)(src \<mapsto> null_lease, dst \<mapsto> l)\<rparr>)"
| shrink:
    "\<lbrakk> adm_leases s i = Some l; lease_shrink (adm_controller s) l n = Inr (c, l') \<rbrakk> \<Longrightarrow>
     admission_step s (s\<lparr>adm_controller := c, adm_leases := (adm_leases s)(i \<mapsto> l')\<rparr>)"
| destroy:
    "\<lbrakk> adm_leases s i = Some l; lease_reset (adm_controller s) l = (c, l') \<rbrakk> \<Longrightarrow>
     admission_step s (s\<lparr>adm_controller := c, adm_leases := (adm_leases s)(i := None)\<rparr>)"

definition admission_init :: "u64 \<Rightarrow> admission_state \<Rightarrow> bool" where
  "admission_init capacity s \<longleftrightarrow> s = \<lparr>adm_controller = new_controller capacity, adm_leases = Map.empty\<rparr>"

text \<open>The abstract ledger: the sum of the bytes of all live leases, as a natural number.\<close>

definition lease_amount :: "lease option \<Rightarrow> nat" where
  "lease_amount l = (case l of None \<Rightarrow> 0 | Some l \<Rightarrow> if lease_owned l then unat (lease_bytes l) else 0)"

definition lease_total :: "(nat \<rightharpoonup> lease) \<Rightarrow> nat" where
  "lease_total m = (\<Sum>i \<in> dom m. lease_amount (m i))"

definition ledger :: "admission_state \<Rightarrow> nat" where
  "ledger s = lease_total (adm_leases s)"

definition admission_inv :: "u64 \<Rightarrow> admission_state \<Rightarrow> bool" where
  "admission_inv capacity s \<longleftrightarrow>
     finite (dom (adm_leases s)) \<and>
     capacity_bytes (adm_controller s) = capacity \<and>
     unat (current_bytes (adm_controller s)) = ledger s \<and>
     current_bytes (adm_controller s) \<le> peak_bytes (adm_controller s) \<and>
     peak_bytes (adm_controller s) \<le> capacity"

section \<open>The ledger equals the counter\<close>

lemma lease_total_update:
  assumes "finite (dom m)"
  shows "lease_total (m(i := x)) + lease_amount (m i) = lease_total m + lease_amount x"
proof -
  have live: "\<exists>y. x = Some y" if "0 < lease_amount x" for x
    using that by (cases x) (simp_all add: lease_amount_def)
  have total: "lease_total f = (\<Sum>j \<in> insert i (dom m). lease_amount (f j))"
    if "dom f \<subseteq> insert i (dom m)" for f
    unfolding lease_total_def using that assms by (intro sum.mono_neutral_left) (auto dest: live)
  have rest: "(\<Sum>j \<in> dom m - {i}. lease_amount ((m(i := x)) j)) = (\<Sum>j \<in> dom m - {i}. lease_amount (m j))"
    by (rule sum.cong) auto
  have "lease_total m = lease_amount (m i) + (\<Sum>j \<in> dom m - {i}. lease_amount (m j))"
    using total [of m] assms by (auto simp: sum.insert_remove)
  moreover have "dom (m(i := x)) \<subseteq> insert i (dom m)" by auto
  then have "lease_total (m(i := x)) = lease_amount x + (\<Sum>j \<in> dom m - {i}. lease_amount (m j))"
    using total [of "m(i := x)"] assms rest by (simp add: sum.insert_remove)
  ultimately show ?thesis by simp
qed

lemma lease_total_member:
  "finite (dom m) \<Longrightarrow> m i = Some l \<Longrightarrow> lease_amount (Some l) \<le> lease_total m"
  using member_le_sum [of i "dom m" "\<lambda>i. lease_amount (m i)"]
  by (auto simp: lease_total_def)

lemma lease_amount_simps [simp]:
  "lease_amount None = 0" "lease_amount (Some null_lease) = 0"
  "lease_owned l \<Longrightarrow> lease_amount (Some l) = unat (lease_bytes l)"
  "\<not> lease_owned l \<Longrightarrow> lease_amount (Some l) = 0"
  by (simp_all add: lease_amount_def null_lease_def)

text \<open>The controller operations on their own: what each does to the counter.\<close>

lemma unat_sub_le: "b \<le> a \<Longrightarrow> unat (a - b) = unat a - unat (b :: u64)"
  by (rule unat_sub)

lemma try_acquire_Some:
  assumes "try_acquire c n = (c', Some l)" and "current_bytes c \<le> peak_bytes c"
    and "peak_bytes c \<le> capacity_bytes c"
  shows "l = \<lparr>lease_owned = True, lease_bytes = n\<rparr>"
    and "unat (current_bytes c') = unat (current_bytes c) + unat n"
    and "current_bytes c' \<le> peak_bytes c'" and "peak_bytes c' \<le> capacity_bytes c'"
    and "capacity_bytes c' = capacity_bytes c"
proof -
  have le: "current_bytes c \<le> capacity_bytes c" using assms(2,3) by simp
  then have "min (capacity_bytes c) (current_bytes c) = current_bytes c" by (rule min.absorb2)
  then have n: "n \<le> capacity_bytes c - current_bytes c"
    and c': "c' = c\<lparr>current_bytes := current_bytes c + n,
        peak_bytes := max (peak_bytes c) (current_bytes c + n)\<rparr>"
    and l: "l = \<lparr>lease_owned = True, lease_bytes = n\<rparr>"
    using assms(1) by (auto simp: try_acquire_def Let_def split: if_splits)
  have sum: "unat (current_bytes c) + unat n \<le> unat (capacity_bytes c)"
    using n le unat_sub_le [OF le] by (simp add: word_le_nat_alt)
  then have add: "unat (current_bytes c + n) = unat (current_bytes c) + unat n"
    using unat_u64_less [of "capacity_bytes c"] by (simp add: unat_plus_if')
  show "l = \<lparr>lease_owned = True, lease_bytes = n\<rparr>" by (rule l)
  show "unat (current_bytes c') = unat (current_bytes c) + unat n" using add c' by simp
  show "current_bytes c' \<le> peak_bytes c'" and "capacity_bytes c' = capacity_bytes c" using c' by simp_all
  show "peak_bytes c' \<le> capacity_bytes c'"
    using c' assms(3) add sum by (simp add: word_le_nat_alt)
qed

lemma lease_reset_effect:
  assumes "lease_reset c l = (c', l')" and "lease_amount (Some l) \<le> unat (current_bytes c)"
  shows "unat (current_bytes c') = unat (current_bytes c) - lease_amount (Some l)"
    and "peak_bytes c' = peak_bytes c" and "capacity_bytes c' = capacity_bytes c"
    and "current_bytes c' \<le> current_bytes c"
  using assms
  by (auto simp: lease_reset_def release_def word_less_nat_alt word_le_nat_alt unat_sub_le
      split: if_splits)

lemma lease_shrink_effect:
  assumes "lease_shrink c l n = Inr (c', l')"
  shows "unat (current_bytes c') + unat (lease_bytes l) = unat (current_bytes c) + unat n"
    and "peak_bytes c' = peak_bytes c" and "capacity_bytes c' = capacity_bytes c"
    and "lease_owned l" and "lease_owned l'" and "lease_bytes l' = n"
    and "current_bytes c' \<le> current_bytes c"
proof -
  from assms have own: "lease_owned l" and n: "n \<le> lease_bytes l"
    and c: "lease_bytes l - n \<le> current_bytes c"
    and c': "c' = c\<lparr>current_bytes := current_bytes c - (lease_bytes l - n)\<rparr>"
    and l': "l' = l\<lparr>lease_bytes := n\<rparr>"
    by (auto simp: lease_shrink_def controller_shrink_def split: if_splits)
  show "lease_owned l" "lease_owned l'" "lease_bytes l' = n" "peak_bytes c' = peak_bytes c"
    "capacity_bytes c' = capacity_bytes c"
    using own c' l' by simp_all
  show "unat (current_bytes c') + unat (lease_bytes l) = unat (current_bytes c) + unat n"
    using n c c' unat_sub_le [OF n] unat_sub_le [OF c] by (simp add: word_le_nat_alt)
  show "current_bytes c' \<le> current_bytes c"
    using c' unat_sub_le [OF c] by (simp add: word_le_nat_alt)
qed

lemma admission_step_inv:
  assumes "admission_step s t" and "admission_inv capacity s"
  shows "admission_inv capacity t"
  using assms
proof (induction rule: admission_step.induct)
  case (acquire s i n c l)
  note eff = try_acquire_Some [OF acquire(2)]
  show ?case
    using acquire eff lease_total_update [of "adm_leases s" i "Some l"]
    by (auto simp: admission_inv_def ledger_def)
next
  case (refuse s n c)
  then show ?case by (auto simp: admission_inv_def ledger_def try_acquire_def Let_def split: if_splits)
next
  case (move_construct s src l dst)
  let ?m = "adm_leases s"
  have fin: "finite (dom ?m)" using move_construct by (simp add: admission_inv_def)
  have "lease_total (?m(src \<mapsto> null_lease, dst \<mapsto> l)) = lease_total ?m"
    using lease_total_update [OF fin, of src "Some null_lease"] move_construct(1,2) fin
      lease_total_update [of "?m(src \<mapsto> null_lease)" dst "Some l"]
    by (auto split: if_splits)
  then show ?case using move_construct by (simp add: admission_inv_def ledger_def)
next
  case (move_assign s src l dst old c uu)
  let ?m = "adm_leases s"
  have fin: "finite (dom ?m)" and cur: "unat (current_bytes (adm_controller s)) = lease_total ?m"
    using move_assign by (simp_all add: admission_inv_def ledger_def)
  have le: "lease_amount (Some old) \<le> lease_total ?m"
    using fin move_assign(2) by (rule lease_total_member)
  note eff = lease_reset_effect [OF move_assign(4) le [folded cur]]
  have "lease_total (?m(src \<mapsto> null_lease, dst \<mapsto> l)) + lease_amount (Some old) = lease_total ?m"
    using lease_total_update [OF fin, of src "Some null_lease"] move_assign(1-3) fin
      lease_total_update [of "?m(src \<mapsto> null_lease)" dst "Some l"]
    by auto
  then show ?case using move_assign eff cur by (auto simp: admission_inv_def ledger_def)
next
  case (shrink s i l n c l')
  let ?m = "adm_leases s"
  have fin: "finite (dom ?m)" using shrink by (simp add: admission_inv_def)
  note eff = lease_shrink_effect [OF shrink(2)]
  show ?case
    using shrink eff lease_total_update [OF fin, of i "Some l'"]
    by (auto simp: admission_inv_def ledger_def)
next
  case (destroy s i l c l')
  let ?m = "adm_leases s"
  have fin: "finite (dom ?m)" and cur: "unat (current_bytes (adm_controller s)) = lease_total ?m"
    using destroy by (simp_all add: admission_inv_def ledger_def)
  have le: "lease_amount (Some l) \<le> lease_total ?m"
    using fin destroy(1) by (rule lease_total_member)
  note eff = lease_reset_effect [OF destroy(2) le [folded cur]]
  show ?case
    using destroy eff cur lease_total_update [OF fin, of i None]
    by (auto simp: admission_inv_def ledger_def)
qed

interpretation admission_machine: system_invariant "admission_init capacity" admission_step "admission_inv capacity"
  for capacity
proof unfold_locales
  show "admission_init capacity s \<Longrightarrow> admission_inv capacity s" for s
    by (simp add: admission_init_def admission_inv_def new_controller_def ledger_def lease_total_def)
  show "admission_inv capacity s \<Longrightarrow> admission_step s t \<Longrightarrow> admission_inv capacity t" for s t
    by (blast intro: admission_step_inv)
qed

text \<open>A controller of 10 bytes with one lease of 7.\<close>

definition demo_admission :: admission_state where
  "demo_admission =
     \<lparr>adm_controller = \<lparr>capacity_bytes = 10, current_bytes = 7, peak_bytes = 7, rejected_requests = 0\<rparr>,
      adm_leases = [0 \<mapsto> \<lparr>lease_owned = True, lease_bytes = 7\<rparr>]\<rparr>"

lemma demo_admission_reachable: "reachable (admission_init 10) admission_step demo_admission"
proof -
  let ?s = "\<lparr>adm_controller = new_controller 10, adm_leases = Map.empty\<rparr>"
  have "reachable (admission_init 10) admission_step ?s"
    by (rule reachable.initially) (simp add: admission_init_def)
  moreover have "try_acquire (new_controller 10) 7 =
      (\<lparr>capacity_bytes = 10, current_bytes = 7, peak_bytes = 7, rejected_requests = 0\<rparr>,
       Some \<lparr>lease_owned = True, lease_bytes = 7\<rparr>)"
    by code_simp
  then have "admission_step ?s demo_admission"
    using admission_step.acquire [of ?s 0 7] by (simp add: demo_admission_def)
  ultimately show ?thesis by (rule reachable.stepwise)
qed

text \<open>
  C11: Under any sequence of acquisitions, refusals, moves, shrinks and destructions of leases,
  the current_bytes counter equals the sum of the bytes of all live leases and never exceeds the
  capacity; nor does the peak.
\<close>

theorem admission_ledger:
  assumes "reachable (admission_init capacity) admission_step s"
  shows "unat (current_bytes (adm_controller s)) = ledger s \<and> ledger s \<le> unat capacity \<and>
    peak_bytes (adm_controller s) \<le> capacity"
  using admission_machine.reachable_inv [OF assms]
  by (auto simp: admission_inv_def word_le_nat_alt)

theorem admission_ledger_witness:
  "unat (current_bytes (adm_controller demo_admission)) = ledger demo_admission \<and> ledger demo_admission \<le> 10"
  using admission_ledger [OF demo_admission_reachable] by simp

lemma admission_returns_to_zero:
  assumes "reachable (admission_init capacity) admission_step s" and "\<forall>i l. adm_leases s i = Some l \<longrightarrow> \<not> lease_owned l"
  shows "current_bytes (adm_controller s) = 0"
proof -
  have "ledger s = 0"
    unfolding ledger_def lease_total_def
    by (rule sum.neutral) (use assms(2) in \<open>auto simp: lease_amount_def\<close>)
  then show ?thesis
    using admission_machine.reachable_inv [OF assms(1)] by (simp add: admission_inv_def unat_0_iff)
qed

text \<open>
  C12: Admission is exact: in every reachable state a request is refused if and only if it does
  not fit into the capacity beside the live leases.
\<close>

theorem try_acquire_exact:
  assumes "reachable (admission_init capacity) admission_step s"
  shows "snd (try_acquire (adm_controller s) n) = None \<longleftrightarrow> ledger s + unat n > unat capacity"
proof -
  note inv = admission_machine.reachable_inv [OF assms]
  let ?c = "adm_controller s"
  have le: "current_bytes ?c \<le> capacity_bytes ?c" and cap: "capacity_bytes ?c = capacity"
    using inv by (auto simp: admission_inv_def)
  then have "min (capacity_bytes ?c) (current_bytes ?c) = current_bytes ?c" by (intro min.absorb2)
  moreover have "n > capacity_bytes ?c - current_bytes ?c \<longleftrightarrow>
      unat (current_bytes ?c) + unat n > unat (capacity_bytes ?c)"
    using le unat_sub_le [OF le] by (auto simp: word_less_nat_alt word_le_nat_alt)
  ultimately show ?thesis
    using inv cap by (auto simp: try_acquire_def Let_def admission_inv_def)
qed

theorem try_acquire_exact_witness:
  "snd (try_acquire (adm_controller demo_admission) 4) = None \<longleftrightarrow> ledger demo_admission + 4 > 10"
  using try_acquire_exact [OF demo_admission_reachable, of 4] by simp

text \<open>The \<^verbatim>\<open>logic_error\<close> of the controller's \<^verbatim>\<open>shrink\<close> cannot happen: a live lease always shrinks.\<close>

lemma lease_shrink_total:
  assumes "reachable (admission_init capacity) admission_step s" and "adm_leases s i = Some l"
    and "lease_owned l" and "n \<le> lease_bytes l"
  shows "is_ok (lease_shrink (adm_controller s) l n)"
proof -
  note inv = admission_machine.reachable_inv [OF assms(1)]
  have "unat (lease_bytes l) \<le> ledger s"
    using lease_total_member [of "adm_leases s" i l] inv assms(2,3)
    by (simp add: admission_inv_def ledger_def)
  then have "lease_bytes l \<le> current_bytes (adm_controller s)"
    using inv by (simp add: admission_inv_def word_le_nat_alt)
  moreover have "lease_bytes l - n \<le> lease_bytes l"
    using assms(4) unat_sub_le [OF assms(4)] by (simp add: word_le_nat_alt)
  ultimately have "\<not> lease_bytes l - n > current_bytes (adm_controller s)" by simp
  then show ?thesis using assms(3,4) by (simp add: lease_shrink_def controller_shrink_def not_less)
qed

section \<open>The charge is exact, bounded and monotone\<close>

definition align_spec :: "nat \<Rightarrow> nat" where
  "align_spec n = (n + 65535) div 65536 * 65536"

definition charge_spec :: "execute_request \<Rightarrow> nat \<Rightarrow> nat" where
  "charge_spec r n =
     n * (2 * align_spec (unat (er_max_input_batch_bytes r) + 24 + 65536) + 67108864) +
     2 * align_spec (unat (er_max_batch_bytes r) + 65536) +
     2 * align_spec (length (er_plan r) + length (er_result_schema r) + 65536)"

lemma checked_add_iff:
  "checked_add a b = (if unat a + unat b < 2 ^ 64 then Inr (a + b)
     else Inl (Overflow_error ''stream admission charge overflow''))"
proof -
  have "u64_max - a < b \<longleftrightarrow> \<not> unat a + unat b < 2 ^ 64"
  proof -
    have "a \<le> u64_max" by (simp add: u64_max_def word_le_nat_alt) (use unat_u64_less [of a] in simp)
    then have "unat (u64_max - a) = 2 ^ 64 - 1 - unat a"
      by (simp add: unat_sub_le u64_max_def)
    then show ?thesis using unat_u64_less [of a] by (auto simp: word_less_nat_alt)
  qed
  then show ?thesis by (simp add: checked_add_def)
qed

lemma checked_multiply_iff:
  "checked_multiply a b = (if unat a * unat b < 2 ^ 64 then Inr (a * b)
     else Inl (Overflow_error ''stream admission charge overflow''))"
proof (cases "a = 0")
  case True
  then show ?thesis by (simp add: checked_multiply_def)
next
  case False
  then have pos: "0 < unat a" by (simp add: unat_gt_0)
  have "u64_max div a < b \<longleftrightarrow> (2 ^ 64 - 1) div unat a < unat b"
    by (simp add: word_less_nat_alt unat_div u64_max_def)
  also have "\<dots> \<longleftrightarrow> \<not> unat a * unat b \<le> 2 ^ 64 - 1"
    using pos by (metis less_eq_div_iff_mult_less_eq mult.commute not_le)
  also have "\<dots> \<longleftrightarrow> \<not> unat a * unat b < 2 ^ 64" by auto
  finally show ?thesis using False by (simp add: checked_multiply_def)
qed

lemma checked_add_ok: "unat a + unat b < 2 ^ 64 \<Longrightarrow> \<exists>c. checked_add a b = Inr c \<and> unat c = unat a + unat b"
  by (auto simp: checked_add_iff unat_plus_if')

lemma checked_multiply_ok: "unat a * unat b < 2 ^ 64 \<Longrightarrow> \<exists>c. checked_multiply a b = Inr c \<and> unat c = unat a * unat b"
  using unat_mult_lem [of a b] by (auto simp: checked_multiply_iff)

lemma checked_add_InrD: "checked_add a b = Inr c \<Longrightarrow> unat c = unat a + unat b"
  by (auto simp: checked_add_iff unat_plus_if' split: if_splits)

lemma checked_multiply_InrD: "checked_multiply a b = Inr c \<Longrightarrow> unat c = unat a * unat b"
  using unat_mult_lem [of a b] by (auto simp: checked_multiply_iff split: if_splits)

lemma align_InrD: "align a = Inr c \<Longrightarrow> unat c = align_spec (unat a)"
  by (auto simp: align_def align_spec_def adm_alignment_def unat_div
      dest!: checked_add_InrD checked_multiply_InrD)

lemma align_ok:
  assumes "unat a + 65535 < 2 ^ 64"
  shows "\<exists>c. align a = Inr c \<and> unat c = align_spec (unat a)"
proof -
  from assms checked_add_ok [of a "adm_alignment - 1"]
  obtain d where d: "checked_add a (adm_alignment - 1) = Inr d" "unat d = unat a + 65535"
    by (auto simp: adm_alignment_def)
  have "unat d div 65536 * 65536 \<le> unat d" by simp
  then have "unat (d div adm_alignment) * unat adm_alignment < 2 ^ 64"
    using unat_u64_less [of d] by (simp add: adm_alignment_def unat_div)
  from checked_multiply_ok [OF this] d show ?thesis
    by (auto simp: align_def align_spec_def adm_alignment_def unat_div)
qed

lemma stream_execution_charge_exact:
  assumes "stream_execution_charge r n = Inr c"
    and "length (er_plan r) < 2 ^ 64" and "length (er_result_schema r) < 2 ^ 64"
  shows "unat c = charge_spec r n \<and> n \<le> 16"
proof -
  have n: "n \<le> 16" "unat (of_nat n :: u64) = n"
    using assms(1) by (auto simp: stream_execution_charge_def k_max_stream_inputs_def split: if_splits
        intro!: unat_of_nat_u64)
  have lens: "unat (of_nat (length (er_plan r)) :: u64) = length (er_plan r)"
    "unat (of_nat (length (er_result_schema r)) :: u64) = length (er_result_schema r)"
    using assms(2,3) by (simp_all add: unat_of_nat_u64)
  show ?thesis
    using assms(1) n lens
    by (auto simp: stream_execution_charge_def charge_spec_def k_native_batch_frame_header_bytes_def
        transport_overhead_def expanded_input_bytes_def
        split: if_splits dest!: checked_add_InrD checked_multiply_InrD align_InrD)
qed

text \<open>Inside the limits that \<^verbatim>\<open>GetFlightInfo\<close> and the request parser enforce, the checked arithmetic
  never overflows, and the charge stays below four GiB.\<close>

definition charge_limits :: "execute_request \<Rightarrow> bool" where
  "charge_limits r \<longleftrightarrow>
     unat (er_max_input_batch_bytes r) \<le> 4194304 \<and> unat (er_max_batch_bytes r) \<le> 1073741824 \<and>
     length (er_plan r) \<le> 16777216 \<and> length (er_result_schema r) \<le> 1048576"

lemma align_spec_bounds: "n \<le> align_spec n" "align_spec n \<le> n + 65535"
proof -
  have "(n + 65535) div 65536 * 65536 + (n + 65535) mod 65536 = n + 65535" by (rule div_mult_mod_eq)
  moreover have "(n + 65535) mod 65536 < 65536" by simp
  ultimately show "n \<le> align_spec n" "align_spec n \<le> n + 65535"
    unfolding align_spec_def by linarith+
qed

lemma charge_parts_bounded:
  assumes "charge_limits r"
  shows "align_spec (unat (er_max_input_batch_bytes r) + 24 + 65536) \<le> 4325399"
    and "align_spec (unat (er_max_batch_bytes r) + 65536) \<le> 1073872895"
    and "align_spec (length (er_plan r) + length (er_result_schema r) + 65536) \<le> 17956863"
  using assms align_spec_bounds(2) [of "unat (er_max_input_batch_bytes r) + 24 + 65536"]
    align_spec_bounds(2) [of "unat (er_max_batch_bytes r) + 65536"]
    align_spec_bounds(2) [of "length (er_plan r) + length (er_result_schema r) + 65536"]
  unfolding charge_limits_def by linarith+

lemma stream_execution_charge_ok:
  assumes "charge_limits r" and "n \<le> 16"
  shows "\<exists>c. stream_execution_charge r n = Inr c \<and> unat c = charge_spec r n"
proof -
  let ?i = "align_spec (unat (er_max_input_batch_bytes r) + 24 + 65536)"
    and ?o = "align_spec (unat (er_max_batch_bytes r) + 65536)"
    and ?q = "align_spec (length (er_plan r) + length (er_result_schema r) + 65536)"
  have lim: "unat (er_max_input_batch_bytes r) \<le> 4194304" "unat (er_max_batch_bytes r) \<le> 1073741824"
      "length (er_plan r) \<le> 16777216" "length (er_result_schema r) \<le> 1048576"
    using assms(1) by (auto simp: charge_limits_def)
  note bi = charge_parts_bounded(1) [OF assms(1)] and bo = charge_parts_bounded(2) [OF assms(1)]
    and bq = charge_parts_bounded(3) [OF assms(1)]
  have mul: "n * (2 * ?i + 67108864) \<le> 16 * 75759662"
    using assms(2) bi by (intro mult_le_mono) auto
  have lens: "unat (of_nat (length (er_plan r)) :: u64) = length (er_plan r)"
    "unat (of_nat (length (er_result_schema r)) :: u64) = length (er_result_schema r)"
    "unat (of_nat n :: u64) = n"
    using lim assms(2) by (auto intro!: unat_of_nat_u64)
  have kvals: "unat (of_nat k_native_batch_frame_header_bytes :: u64) = 24"
    "unat transport_overhead = 65536" "unat expanded_input_bytes = 67108864" "unat (2 :: u64) = 2"
    by (simp_all add: k_native_batch_frame_header_bytes_def transport_overhead_def expanded_input_bytes_def)
  obtain a where a: "checked_add (er_max_input_batch_bytes r) (of_nat k_native_batch_frame_header_bytes) = Inr a"
      "unat a = unat (er_max_input_batch_bytes r) + 24"
    using checked_add_ok [of "er_max_input_batch_bytes r" "of_nat k_native_batch_frame_header_bytes"] lim
    by (auto simp: kvals)
  obtain b where b: "checked_add a transport_overhead = Inr b" "unat b = unat a + 65536"
    using checked_add_ok [of a transport_overhead] a lim by (auto simp: kvals)
  obtain fr where fr: "align b = Inr fr" "unat fr = ?i" using align_ok [of b] a b lim by auto
  obtain d where d: "checked_multiply 2 fr = Inr d" "unat d = 2 * ?i"
    using checked_multiply_ok [of 2 fr] fr bi by auto
  obtain per where per: "checked_add d expanded_input_bytes = Inr per" "unat per = 2 * ?i + 67108864"
    using checked_add_ok [of d expanded_input_bytes] d bi by (auto simp: kvals)
  obtain e where e: "checked_add (er_max_batch_bytes r) transport_overhead = Inr e"
      "unat e = unat (er_max_batch_bytes r) + 65536"
    using checked_add_ok [of "er_max_batch_bytes r" transport_overhead] lim by (auto simp: kvals)
  obtain f where f: "align e = Inr f" "unat f = ?o" using align_ok [of e] e lim by auto
  obtain res where res: "checked_multiply 2 f = Inr res" "unat res = 2 * ?o"
    using checked_multiply_ok [of 2 f] f bo by auto
  obtain rq where rq: "checked_add (of_nat (length (er_plan r))) (of_nat (length (er_result_schema r))) = Inr rq"
      "unat rq = length (er_plan r) + length (er_result_schema r)"
    using checked_add_ok [of "of_nat (length (er_plan r))" "of_nat (length (er_result_schema r))"] lim
    by (auto simp: lens)
  obtain g where g: "checked_add rq transport_overhead = Inr g" "unat g = unat rq + 65536"
    using checked_add_ok [of rq transport_overhead] rq lim by (auto simp: kvals)
  obtain h where h: "align g = Inr h" "unat h = ?q" using align_ok [of g] g rq lim by auto
  obtain ov where ov: "checked_multiply 2 h = Inr ov" "unat ov = 2 * ?q"
    using checked_multiply_ok [of 2 h] h bq by auto
  obtain m where m: "checked_multiply (of_nat n) per = Inr m" "unat m = n * (2 * ?i + 67108864)"
    using checked_multiply_ok [of "of_nat n" per] per mul by (auto simp: lens)
  obtain k where k: "checked_add m res = Inr k" "unat k = unat m + unat res"
    using checked_add_ok [of m res] m res mul bo by auto
  obtain c where c: "checked_add k ov = Inr c" "unat c = unat k + unat ov"
    using checked_add_ok [of k ov] k ov m res mul bo bq by auto
  have "\<not> n > k_max_stream_inputs" using assms(2) by (simp add: k_max_stream_inputs_def)
  then have "stream_execution_charge r n = Inr c"
    by (simp add: stream_execution_charge_def a(1) b(1) fr(1) d(1) per(1) e(1) f(1) res(1) rq(1) g(1)
        h(1) ov(1) m(1) k(1) c(1))
  moreover have "unat c = charge_spec r n"
    using c(2) k(2) m(2) res(2) ov(2) by (simp add: charge_spec_def)
  ultimately show ?thesis by blast
qed

lemma charge_spec_mono: "n \<le> m \<Longrightarrow> charge_spec r n \<le> charge_spec r m"
  by (simp add: charge_spec_def mult_le_mono1)

text \<open>A small request.\<close>

definition demo_charge_request :: execute_request where
  "demo_charge_request = empty_execute_request\<lparr>er_max_input_batch_bytes := 65536, er_max_batch_bytes := 1048576\<rparr>"

lemma demo_charge_limits: "charge_limits demo_charge_request"
  by (simp add: demo_charge_request_def charge_limits_def empty_execute_request_def)

lemma charge_below_4g:
  assumes "charge_limits r" and "n \<le> 16"
  shows "\<exists>c. stream_execution_charge r n = Inr c \<and> unat c = charge_spec r n \<and> unat c < 4294967296"
proof -
  from stream_execution_charge_ok [OF assms] obtain c
    where c: "stream_execution_charge r n = Inr c" "unat c = charge_spec r n" by blast
  have "16 * (2 * align_spec (unat (er_max_input_batch_bytes r) + 24 + 65536) + 67108864) \<le> 16 * 75759662"
    using charge_parts_bounded(1) [OF assms(1)] by (intro mult_le_mono) auto
  then have "charge_spec r 16 < 4294967296"
    using charge_parts_bounded(2,3) [OF assms(1)] unfolding charge_spec_def by linarith
  then show ?thesis using c charge_spec_mono [OF assms(2), of r] by auto
qed

text \<open>
  C13: Within the limits the server enforces, the checked 64-bit arithmetic of the execution
  charge never overflows, equals its closed form over the natural numbers and stays below 4 GiB.
\<close>

theorem stream_execution_charge_total:
  assumes "charge_limits r" and "n \<le> 16"
  shows "\<exists>c. stream_execution_charge r n = Inr c \<and> unat c = charge_spec r n \<and> unat c < 4294967296"
  by (rule charge_below_4g [OF assms])

theorem stream_execution_charge_total_witness:
  "\<exists>c. stream_execution_charge demo_charge_request 2 = Inr c \<and> unat c = charge_spec demo_charge_request 2 \<and>
     unat c < 4294967296"
  by (rule stream_execution_charge_total [OF demo_charge_limits]) simp

definition demo_full_charge :: u64 where
  "demo_full_charge = projr (stream_execution_charge demo_charge_request k_max_stream_inputs)"

lemma demo_full_charge: "stream_execution_charge demo_charge_request k_max_stream_inputs = Inr demo_full_charge"
proof -
  obtain c where "stream_execution_charge demo_charge_request k_max_stream_inputs = Inr c"
    using stream_execution_charge_ok [OF demo_charge_limits, of k_max_stream_inputs] by (auto simp: k_max_stream_inputs_def)
  then show ?thesis by (simp add: demo_full_charge_def)
qed

definition demo_execution :: admission_state where
  "demo_execution =
     \<lparr>adm_controller = fst (try_acquire (new_controller u64_max) demo_full_charge),
      adm_leases = [0 \<mapsto> \<lparr>lease_owned = True, lease_bytes = demo_full_charge\<rparr>]\<rparr>"

lemma demo_execution_reachable: "reachable (admission_init u64_max) admission_step demo_execution"
proof -
  let ?s = "\<lparr>adm_controller = new_controller u64_max, adm_leases = Map.empty\<rparr>"
  have "reachable (admission_init u64_max) admission_step ?s"
    by (rule reachable.initially) (simp add: admission_init_def)
  moreover have "\<not> demo_full_charge > u64_max" 
    using unat_u64_less [of demo_full_charge] by (simp add: u64_max_def word_less_nat_alt)
  then have "try_acquire (new_controller u64_max) demo_full_charge =
      (fst (try_acquire (new_controller u64_max) demo_full_charge), Some \<lparr>lease_owned = True, lease_bytes = demo_full_charge\<rparr>)"
    by (simp add: try_acquire_def new_controller_def Let_def)
  then have "admission_step ?s demo_execution"
    using admission_step.acquire [of ?s 0 demo_full_charge] by (simp add: demo_execution_def)
  ultimately show ?thesis by (rule reachable.stepwise)
qed

text \<open>
  C14: The pre-admission of an execution for 16 inputs always covers the later exact charge: for
  every request within the limits that GetFlightInfo and the configuration enforce (plan at most
  16 MiB, result schema at most 1 MiB, input batches at most 4 MiB, result batches at most 1 GiB)
  and at most 16 inputs, shrinking the lease to the charge of the inputs the plan really has never
  throws.
\<close>

theorem shrink_admission_total:
  assumes "charge_limits r" and "n \<le> 16" and "reachable (admission_init capacity) admission_step s"
    and "stream_execution_charge r k_max_stream_inputs = Inr full"
    and "adm_leases s i = Some \<lparr>lease_owned = True, lease_bytes = full\<rparr>"
  shows "\<exists>c. stream_execution_charge r n = Inr c \<and>
    is_ok (lease_shrink (adm_controller s) \<lparr>lease_owned = True, lease_bytes = full\<rparr> c)"
proof -
  from stream_execution_charge_ok [OF assms(1,2)] obtain c
    where c: "stream_execution_charge r n = Inr c" "unat c = charge_spec r n" by blast
  from stream_execution_charge_ok [OF assms(1), of 16] assms(4)
  have "unat full = charge_spec r 16" by (auto simp: k_max_stream_inputs_def)
  with c have "c \<le> full" using charge_spec_mono [OF assms(2), of r] by (simp add: word_le_nat_alt)
  then show ?thesis
    using c(1) lease_shrink_total [OF assms(3,5)] by simp
qed

theorem shrink_admission_total_witness:
  "\<exists>c. stream_execution_charge demo_charge_request 2 = Inr c \<and>
    is_ok (lease_shrink (adm_controller demo_execution) \<lparr>lease_owned = True, lease_bytes = demo_full_charge\<rparr> c)"
  by (rule shrink_admission_total [OF demo_charge_limits _ demo_execution_reachable demo_full_charge, where i = 0])
    (simp_all add: demo_execution_def)

end
