(* ===== verification/Native_Batch.thy ===== *)
theory Native_Batch
  imports Protocol
begin

text \<open>
  The decoder of MatrixOne native batches in \<^verbatim>\<open>stream_input.cpp\<close> (lines 17 to 227 and 350 to 394).

  The TAE scanner's ABI (\<^verbatim>\<open>tae_types.hpp\<close>: type OIDs, fixed sizes, the varlena layout, the epoch) is
  not part of this repository.  It is the parameter \<open>abi\<close>; the locale \<open>tae_layout\<close> names what
  \<^verbatim>\<open>DESIGN.md\<close> (sections 4.7, 4.8 and 5) documents of it, and \<open>design_abi\<close> is the instance given
  there.  A \<^verbatim>\<open>cursor\<close> is represented by the bytes it has not read yet.
\<close>

section \<open>The TAE ABI\<close>

text \<open>\<open>vl_inline_data\<close> is the offset of \<^verbatim>\<open>inline_data()\<close> inside the descriptor.\<close>

record tae_abi =
  MO_T_bool :: nat
  MO_T_int8 :: nat
  MO_T_int16 :: nat
  MO_T_int32 :: nat
  MO_T_int64 :: nat
  MO_T_uint32 :: nat
  MO_T_float32 :: nat
  MO_T_float64 :: nat
  MO_T_decimal64 :: nat
  MO_T_decimal128 :: nat
  MO_T_date :: nat
  MO_T_char :: nat
  MO_T_varchar :: nat
  MOTypeFixedSize :: "nat \<Rightarrow> int"
  VARLENA_SIZE :: nat
  VARLENA_INLINE_MAX :: nat
  VARLENA_BIG_MARKER :: u32
  MO_UNIX_EPOCH_DAYS :: int
  vl_is_inline :: "bytes \<Rightarrow> bool"
  vl_inline_length :: "bytes \<Rightarrow> u32"
  vl_inline_data :: nat
  vl_big_offset :: "bytes \<Rightarrow> u32"
  vl_big_length :: "bytes \<Rightarrow> u32"

text \<open>What the documentation states of the ABI.\<close>

locale tae_layout =
  fixes abi :: tae_abi
  assumes varlena_size: "VARLENA_SIZE abi = 24"
    and varlena_inline_max: "VARLENA_INLINE_MAX abi = 23"
    and varlena_marker: "VARLENA_BIG_MARKER abi = 0xffffffff"
    and is_inline: "vl_is_inline abi v \<longleftrightarrow> unat (v ! 0) \<le> 23"
    and inline_length: "vl_inline_length abi v = ucast (v ! 0)"
    and inline_data: "vl_inline_data abi = 1"
    and big_offset: "vl_big_offset abi v = load_le 4 v 4"
    and big_length: "vl_big_length abi v = load_le 4 v 8"
    and text_oids: "MO_T_char abi = 40" "MO_T_varchar abi = 41"
    and text_varlena: "MOTypeFixedSize abi 40 < 0" "MOTypeFixedSize abi 41 < 0"
    and bool_type: "MO_T_bool abi = 10" "MOTypeFixedSize abi 10 = 1"
    and int_types: "MO_T_int8 abi = 20" "MOTypeFixedSize abi 20 = 1"
      "MO_T_int16 abi = 21" "MOTypeFixedSize abi 21 = 2"
      "MO_T_int32 abi = 22" "MOTypeFixedSize abi 22 = 4"
      "MO_T_int64 abi = 23" "MOTypeFixedSize abi 23 = 8"
      "MO_T_uint32 abi = 27" "MOTypeFixedSize abi 27 = 4"
    and float_types: "MO_T_float32 abi = 30" "MOTypeFixedSize abi 30 = 4"
      "MO_T_float64 abi = 31" "MOTypeFixedSize abi 31 = 8"
    and decimal_types: "MO_T_decimal64 abi = 60" "MOTypeFixedSize abi 60 = 8"
      "MO_T_decimal128 abi = 61" "MOTypeFixedSize abi 61 = 16"
    and date_type: "MO_T_date abi = 50" "MOTypeFixedSize abi 50 = 4"
    and epoch: "MO_UNIX_EPOCH_DAYS abi = 719162"
begin

lemmas layout_facts = varlena_size varlena_inline_max varlena_marker is_inline inline_length inline_data big_offset big_length
  text_oids text_varlena bool_type int_types float_types decimal_types date_type epoch

end

text \<open>The instance of the tables in \<^verbatim>\<open>DESIGN.md\<close>, sections 5.1 to 5.6.\<close>

definition design_abi :: tae_abi where
  "design_abi =
     \<lparr>MO_T_bool = 10, MO_T_int8 = 20, MO_T_int16 = 21, MO_T_int32 = 22, MO_T_int64 = 23,
      MO_T_uint32 = 27, MO_T_float32 = 30, MO_T_float64 = 31, MO_T_decimal64 = 60,
      MO_T_decimal128 = 61, MO_T_date = 50, MO_T_char = 40, MO_T_varchar = 41,
      MOTypeFixedSize =
        (\<lambda>oid. if oid = 10 \<or> oid = 20 \<or> oid = 25 then 1
               else if oid = 21 \<or> oid = 26 \<or> oid = 200 then 2
               else if oid = 22 \<or> oid = 27 \<or> oid = 30 \<or> oid = 50 then 4
               else if oid = 23 \<or> oid = 28 \<or> oid = 31 \<or> oid = 51 \<or> oid = 52 \<or> oid = 53 \<or> oid = 60 \<or> oid = 210 then 8
               else if oid = 61 \<or> oid = 100 then 16
               else if oid = 62 then 32
               else -1),
      VARLENA_SIZE = 24, VARLENA_INLINE_MAX = 23, VARLENA_BIG_MARKER = 0xffffffff,
      MO_UNIX_EPOCH_DAYS = 719162,
      vl_is_inline = (\<lambda>v. unat (v ! 0) \<le> 23),
      vl_inline_length = (\<lambda>v. ucast (v ! 0)), vl_inline_data = 1,
      vl_big_offset = (\<lambda>v. load_le 4 v 4),
      vl_big_length = (\<lambda>v. load_le 4 v 8)\<rparr>"

interpretation design: tae_layout design_abi
  by unfold_locales (simp_all add: design_abi_def)

section \<open>Substrait types and schemas\<close>

text \<open>The kinds that the switches of \<^verbatim>\<open>substrait_matches_mo\<close> and \<^verbatim>\<open>logical_type\<close> name; every other
  kind is \<open>KOther\<close>.  A decimal carries precision and scale.\<close>

datatype substrait_type =
    KBool | KI8 | KI16 | KI32 | KI64 | KFp32 | KFp64 | KString | KVarchar | KDate
  | KDecimal int int | KOther

record named_struct =
  ns_names :: "bytes list"
  ns_has_struct :: bool
  ns_types :: "substrait_type list"

section \<open>The 16-byte type record\<close>

record mo_type =
  mt_oid :: byte
  mt_charset :: byte
  mt_not_null :: byte
  mt_dummy :: byte
  mt_size :: u32
  mt_width :: u32
  mt_scale :: u32

definition mo_type_bytes :: nat where "mo_type_bytes = 16"

definition encode_mo_type :: "mo_type \<Rightarrow> bytes" where
  "encode_mo_type t =
     [mt_oid t, mt_charset t, mt_not_null t, mt_dummy t] @
     store_le 4 (mt_size t) @ store_le 4 (mt_width t) @ store_le 4 (mt_scale t)"

definition decode_mo_type :: "bytes \<Rightarrow> mo_type" where
  "decode_mo_type bs =
     \<lparr>mt_oid = bs ! 0, mt_charset = bs ! 1, mt_not_null = bs ! 2, mt_dummy = bs ! 3,
      mt_size = load_le 4 bs 4, mt_width = load_le 4 bs 8, mt_scale = load_le 4 bs 12\<rparr>"

section \<open>The cursor\<close>

definition cursor_read :: "nat \<Rightarrow> bytes \<Rightarrow> (bytes \<times> bytes) res" where
  "cursor_read n bs =
     (if n > length bs then Inl (Invalid_argument ''truncated MO native batch'')
      else Inr (take n bs, drop n bs))"

definition cursor_u32 :: "bytes \<Rightarrow> (u32 \<times> bytes) res" where
  "cursor_u32 bs = bindR (cursor_read 4 bs) (\<lambda>(b, rest). Inr (load_le 4 b 0, rest))"

definition cursor_i32 :: "bytes \<Rightarrow> (int \<times> bytes) res" where
  "cursor_i32 bs = bindR (cursor_u32 bs) (\<lambda>(v, rest). Inr (sint v, rest))"

definition cursor_u64 :: "bytes \<Rightarrow> (u64 \<times> bytes) res" where
  "cursor_u64 bs = bindR (cursor_read 8 bs) (\<lambda>(b, rest). Inr (load_le 8 b 0, rest))"

definition cursor_i64 :: "bytes \<Rightarrow> (int \<times> bytes) res" where
  "cursor_i64 bs = bindR (cursor_u64 bs) (\<lambda>(v, rest). Inr (sint v, rest))"

text \<open>\<^verbatim>\<open>input.read(input.u32())\<close>\<close>

definition cursor_block :: "bytes \<Rightarrow> (bytes \<times> bytes) res" where
  "cursor_block bs = bindR (cursor_u32 bs) (\<lambda>(n, rest). cursor_read (unat n) rest)"

section \<open>Columns\<close>

definition mo_vector_flat :: byte where "mo_vector_flat = 0"
definition mo_vector_constant :: byte where "mo_vector_constant = 1"
definition mo_bitmap_header_bytes :: nat where "mo_bitmap_header_bytes = 24"

record native_column_view =
  cv_encoded :: bytes
  cv_vector_class :: byte
  cv_type :: mo_type
  cv_logical_rows :: u32
  cv_data :: bytes
  cv_area :: bytes
  cv_sorted :: bool
  cv_null_count :: u64
  cv_null_words :: bytes

definition physical_rows :: "native_column_view \<Rightarrow> nat" where
  "physical_rows c =
     (if cv_vector_class c = mo_vector_constant then (if cv_data c = [] then 0 else 1)
      else unat (cv_logical_rows c))"

fun substrait_matches_mo :: "tae_abi \<Rightarrow> substrait_type \<Rightarrow> mo_type \<Rightarrow> bool" where
  "substrait_matches_mo abi KBool t = (unat (mt_oid t) = MO_T_bool abi)"
| "substrait_matches_mo abi KI8 t = (unat (mt_oid t) = MO_T_int8 abi)"
| "substrait_matches_mo abi KI16 t = (unat (mt_oid t) = MO_T_int16 abi)"
| "substrait_matches_mo abi KI32 t = (unat (mt_oid t) = MO_T_int32 abi)"
| "substrait_matches_mo abi KI64 t = (unat (mt_oid t) = MO_T_int64 abi)"
| "substrait_matches_mo abi KFp32 t = (unat (mt_oid t) = MO_T_float32 abi)"
| "substrait_matches_mo abi KFp64 t = (unat (mt_oid t) = MO_T_float64 abi)"
| "substrait_matches_mo abi KString t = (unat (mt_oid t) = MO_T_char abi \<or> unat (mt_oid t) = MO_T_varchar abi)"
| "substrait_matches_mo abi KVarchar t = (unat (mt_oid t) = MO_T_char abi \<or> unat (mt_oid t) = MO_T_varchar abi)"
| "substrait_matches_mo abi KDate t = (unat (mt_oid t) = MO_T_date abi)"
| "substrait_matches_mo abi (KDecimal precision scale) t =
     ((if precision \<le> 18 then unat (mt_oid t) = MO_T_decimal64 abi else unat (mt_oid t) = MO_T_decimal128 abi) \<and>
      sint (mt_width t) = precision \<and> sint (mt_scale t) = scale)"
| "substrait_matches_mo abi KOther t = False"

definition popcount :: "u64 \<Rightarrow> nat" where
  "popcount w = length (filter (bit w) [0..<64])"

text \<open>The mask of the bits of one bitmap word that may be set: \<open>remaining\<close> rows from the word's first row.\<close>

definition allowed_mask :: "nat \<Rightarrow> u64" where
  "allowed_mask remaining =
     (if remaining \<ge> 64 then 0xffffffffffffffff
      else if remaining = 0 then 0 else push_bit remaining 1 - 1)"

text \<open>The loop over the bitmap words; \<open>k\<close> counts words, so \<^verbatim>\<open>offset / 8 * 64\<close> is \<open>64 * k\<close>.\<close>

fun null_word_loop :: "nat \<Rightarrow> nat \<Rightarrow> u64 \<Rightarrow> u64 list \<Rightarrow> u64 res" where
  "null_word_loop batch_rows k actual [] = Inr actual"
| "null_word_loop batch_rows k actual (w # ws) =
     (let actual' = actual + of_nat (popcount w);
          first_row = 64 * k;
          remaining = (if first_row < batch_rows then batch_rows - first_row else 0)
      in if w AND NOT (allowed_mask remaining) \<noteq> 0
         then Inl (Invalid_argument ''MO null bitmap contains rows outside the batch'')
         else null_word_loop batch_rows (Suc k) actual' ws)"

text \<open>The 64-bit words of a byte string whose length is a multiple of eight.\<close>

fun words_of :: "bytes \<Rightarrow> u64 list" where
  "words_of bs = (if length bs < 8 then [] else load_le 8 bs 0 # words_of (drop 8 bs))"

declare words_of.simps [simp del]

definition parse_nulls :: "bytes \<Rightarrow> u64 \<Rightarrow> (u64 \<times> bytes) res" where
  "parse_nulls nulls batch_rows =
     (if nulls = [] then Inr (0, [])
      else if length nulls < mo_bitmap_header_bytes
      then Inl (Invalid_argument ''truncated MO null bitmap'')
      else
        let null_count = sint (load_le 8 nulls 0 :: u64);
            bit_length = load_le 8 nulls 8 :: u64;
            word_bytes = load_le 8 nulls 16 :: u64 in
        if null_count < 0 \<or> null_count > uint batch_rows \<or> bit_length < batch_rows \<or>
           bit_length > 0xffffffff \<or>
           unat word_bytes \<noteq> length nulls - mo_bitmap_header_bytes \<or> word_bytes mod 8 \<noteq> 0 \<or>
           word_bytes div 8 \<noteq> (bit_length + 63) div 64
        then Inl (Invalid_argument ''invalid MO null bitmap header'')
        else
          let null_words = drop mo_bitmap_header_bytes nulls in
          bindR (null_word_loop (unat batch_rows) 0 0 (words_of null_words)) (\<lambda>actual.
            if uint actual \<noteq> null_count then Inl (Invalid_argument ''MO null bitmap count mismatch'')
            else Inr (actual, null_words)))"

text \<open>The loop over varlena descriptors: every one that is not inline lies inside the area.\<close>

fun varlena_loop :: "tae_abi \<Rightarrow> bytes \<Rightarrow> bytes \<Rightarrow> nat \<Rightarrow> nat \<Rightarrow> unit res" where
  "varlena_loop abi data area row 0 = Inr ()"
| "varlena_loop abi data area row (Suc rows) =
     (let v = take (VARLENA_SIZE abi) (drop (row * VARLENA_SIZE abi) data) in
      if vl_is_inline abi v then varlena_loop abi data area (Suc row) rows
      else
        let marker = load_le 4 v 0; off = unat (vl_big_offset abi v); len = unat (vl_big_length abi v) in
        if marker \<noteq> VARLENA_BIG_MARKER abi \<or> off > length area \<or> len > length area - off
        then Inl (Invalid_argument ''MO varlena descriptor is outside its area'')
        else varlena_loop abi data area (Suc row) rows)"

definition parse_column :: "tae_abi \<Rightarrow> bytes \<Rightarrow> u64 \<Rightarrow> substrait_type \<Rightarrow> native_column_view res" where
  "parse_column abi bs batch_rows expected =
     bindR (cursor_read 1 bs) (\<lambda>(cls, r1).
     let vector_class = cls ! 0 in
     if vector_class \<noteq> mo_vector_flat \<and> vector_class \<noteq> mo_vector_constant
     then Inl (Invalid_argument ''unsupported MO vector class'')
     else bindR (cursor_read mo_type_bytes r1) (\<lambda>(type_bytes, r2).
     let ty = decode_mo_type type_bytes in
     if \<not> substrait_matches_mo abi expected ty
     then Inl (Invalid_argument ''MO vector type does not match StreamRead schema'')
     else bindR (cursor_u32 r2) (\<lambda>(logical_rows, r3).
     if uint logical_rows \<noteq> uint batch_rows
     then Inl (Invalid_argument ''MO vector length does not match batch row count'')
     else bindR (cursor_block r3) (\<lambda>(data, r4).
     bindR (cursor_block r4) (\<lambda>(area, r5).
     bindR (cursor_block r5) (\<lambda>(nulls, r6).
     bindR (cursor_read 1 r6) (\<lambda>(srt, r7).
     let sorted_flag = srt ! 0 in
     if r7 \<noteq> [] \<or> sorted_flag > 1 then Inl (Invalid_argument ''invalid or trailing MO vector data'')
     else
       let fixed_size = MOTypeFixedSize abi (unat (mt_oid ty));
           element_size = (if fixed_size < 0 then int (VARLENA_SIZE abi) else fixed_size);
           expected_data = (if vector_class = mo_vector_constant
                            then (if data = [] then 0 else of_int element_size)
                            else batch_rows * of_int element_size) in
       if unat (expected_data :: u64) \<noteq> length data \<or> (fixed_size \<ge> 0 \<and> area \<noteq> [])
       then Inl (Invalid_argument ''invalid MO vector data or area length'')
       else bindR (parse_nulls nulls batch_rows) (\<lambda>(null_count, null_words).
         let result = \<lparr>cv_encoded = bs, cv_vector_class = vector_class, cv_type = ty,
                 cv_logical_rows = logical_rows, cv_data = data, cv_area = area,
                 cv_sorted = (sorted_flag \<noteq> 0), cv_null_count = null_count,
                 cv_null_words = null_words\<rparr> in
         if fixed_size < 0 then
           if length data \<noteq> physical_rows result * VARLENA_SIZE abi
           then Inl (Invalid_argument ''invalid MO varlena descriptor length'')
           else bindR (varlena_loop abi data area 0 (physical_rows result)) (\<lambda>_. Inr result)
         else Inr result))))))))"

section \<open>Batches\<close>

record native_batch_view =
  bv_frame :: bytes
  bv_sequence :: u64
  bv_rows :: u64
  bv_payload_bytes :: u64
  bv_columns :: "native_column_view list"

fun parse_columns :: "tae_abi \<Rightarrow> u64 \<Rightarrow> substrait_type list \<Rightarrow> bytes \<Rightarrow> (native_column_view list \<times> bytes) res" where
  "parse_columns abi rows [] bs = Inr ([], bs)"
| "parse_columns abi rows (t # ts) bs =
     bindR (cursor_block bs) (\<lambda>(vec, bs1).
     bindR (parse_column abi vec rows t) (\<lambda>c.
     bindR (parse_columns abi rows ts bs1) (\<lambda>(cs, bs2). Inr (c # cs, bs2))))"

fun skip_attributes :: "nat \<Rightarrow> bytes \<Rightarrow> bytes res" where
  "skip_attributes 0 bs = Inr bs"
| "skip_attributes (Suc n) bs =
     bindR (cursor_i32 bs) (\<lambda>(size, bs1).
       if size < 0 then Inl (Invalid_argument ''invalid MO batch attribute length'')
       else bindR (cursor_read (nat size) bs1) (\<lambda>(_, bs2). skip_attributes n bs2))"

text \<open>The trailer: \<^verbatim>\<open>extra != 0 || input.i32() != 0 || input.i32() != 0 || !input.done()\<close>.\<close>

definition parse_trailer :: "bytes \<Rightarrow> unit res" where
  "parse_trailer bs =
     (let bad = Inl (Invalid_argument ''unsupported or trailing MO batch metadata'') in
      bindR (cursor_i32 bs) (\<lambda>(extra, b1).
        if extra \<noteq> 0 then bad
        else bindR (cursor_i32 b1) (\<lambda>(x, b2).
          if x \<noteq> 0 then bad
          else bindR (cursor_i32 b2) (\<lambda>(y, b3).
            if y \<noteq> 0 then bad else if b3 \<noteq> [] then bad else Inr ()))))"

text \<open>The \<^verbatim>\<open>native_batch_view\<close> constructor.  The endianness and layout checks at its start are compile-time
  facts of the supported platform except for \<^verbatim>\<open>sizeof(Varlena) == VARLENA_SIZE\<close>, whose left side is 24.\<close>

definition new_native_batch_view ::
  "tae_abi \<Rightarrow> bytes \<Rightarrow> native_batch_frame \<Rightarrow> named_struct \<Rightarrow> native_batch_view res" where
  "new_native_batch_view abi frame envelope schema =
     (if VARLENA_SIZE abi \<noteq> 24
      then Inl (Invalid_argument ''MO native batch ABI is unsupported on this sidecar'')
      else bindR (cursor_i64 (nf_payload envelope)) (\<lambda>(signed_rows, b1).
      if signed_rows < 0 \<or> signed_rows > 0xffffffff
      then Inl (Invalid_argument ''invalid MO batch row count'')
      else
        let rows = of_int signed_rows :: u64 in
        if rows = 0 then Inl (Invalid_argument ''empty MO native batches must not be uploaded'')
        else bindR (cursor_i32 b1) (\<lambda>(vector_count, b2).
        if vector_count < 0 \<or> vector_count \<noteq> int (length (ns_names schema)) \<or>
           vector_count \<noteq> int (length (ns_types schema))
        then Inl (Invalid_argument ''MO batch vector count does not match StreamRead schema'')
        else bindR (parse_columns abi rows (ns_types schema) b2) (\<lambda>(columns, b3).
        bindR (cursor_i32 b3) (\<lambda>(attribute_count, b4).
        if attribute_count < 0 \<or> (attribute_count \<noteq> 0 \<and> attribute_count \<noteq> vector_count)
        then Inl (Invalid_argument ''invalid MO batch attribute count'')
        else bindR (skip_attributes (nat attribute_count) b4) (\<lambda>b5.
        bindR (parse_trailer b5) (\<lambda>_.
          Inr \<lparr>bv_frame = frame, bv_sequence = nf_sequence envelope, bv_rows = rows,
               bv_payload_bytes = of_nat (length (nf_payload envelope)), bv_columns = columns\<rparr>)))))))"

section \<open>Filling a DuckDB vector\<close>

text \<open>\<^verbatim>\<open>memcpy\<close> from a buffer; a range that leaves the buffer is undefined behaviour.\<close>

definition mem_read :: "bytes \<Rightarrow> nat \<Rightarrow> nat \<Rightarrow> bytes res" where
  "mem_read buffer off n =
     (if off + n \<le> length buffer then Inr (take n (drop off buffer))
      else Inl (Undefined_behaviour ''read outside the buffer''))"

text \<open>A slot of the DuckDB vector: left as it was, a string, a day number, or raw bytes.  A constant
  vector has one slot.  Validity is one flag per slot.\<close>

datatype duck_slot = Unset | Str bytes | Day u32 | Raw bytes

record duck_vector =
  dv_constant :: bool
  dv_slots :: "duck_slot list"
  dv_valid :: "bool list"

definition source_row :: "bool \<Rightarrow> nat \<Rightarrow> nat \<Rightarrow> nat" where
  "source_row constant source_offset row = (if constant then 0 else source_offset + row)"

definition fill_text ::
  "tae_abi \<Rightarrow> (native_column_view \<Rightarrow> nat \<Rightarrow> bool) \<Rightarrow> native_column_view \<Rightarrow> nat \<Rightarrow> duck_slot res" where
  "fill_text abi is_null c index =
     (if is_null c index then Inr Unset
      else bindR (mem_read (cv_data c) (index * VARLENA_SIZE abi) 24) (\<lambda>v.
        if vl_is_inline abi v
        then bindR (mem_read v (vl_inline_data abi) (unat (vl_inline_length abi v))) (\<lambda>s. Inr (Str s))
        else bindR (mem_read (cv_area c) (unat (vl_big_offset abi v)) (unat (vl_big_length abi v)))
          (\<lambda>s. Inr (Str s))))"

definition fill_date :: "tae_abi \<Rightarrow> native_column_view \<Rightarrow> nat \<Rightarrow> duck_slot res" where
  "fill_date abi c index =
     bindR (mem_read (cv_data c) (index * 4) 4) (\<lambda>v.
       Inr (Day (load_le 4 v 0 - of_int (MO_UNIX_EPOCH_DAYS abi))))"

text \<open>Cutting one copied block into slots of \<open>width\<close> bytes.\<close>

definition raw_slots :: "nat \<Rightarrow> nat \<Rightarrow> bytes \<Rightarrow> duck_slot list" where
  "raw_slots width rows block = map (\<lambda>i. Raw (take width (drop (i * width) block))) [0..<rows]"

text \<open>\<^verbatim>\<open>fill_column\<close>; \<open>is_null\<close> is the method of Sirius's \<^verbatim>\<open>mo_native_column_view\<close>.\<close>

definition fill_column ::
  "tae_abi \<Rightarrow> (native_column_view \<Rightarrow> nat \<Rightarrow> bool) \<Rightarrow> native_column_view \<Rightarrow> nat \<Rightarrow> nat \<Rightarrow> duck_vector res" where
  "fill_column abi is_null c count source_offset =
     (let constant = (cv_vector_class c = mo_vector_constant) in
      if constant \<and> (cv_data c = [] \<or> is_null c 0)
      then Inr \<lparr>dv_constant = True, dv_slots = [Unset], dv_valid = [False]\<rparr>
      else
        let rows = (if constant then 1 else count);
            oid = unat (mt_oid (cv_type c));
            indices = map (source_row constant source_offset) [0..<rows] in
        bindR
          (if oid = MO_T_char abi \<or> oid = MO_T_varchar abi then mapR (fill_text abi is_null c) indices
           else if oid = MO_T_date abi then mapR (fill_date abi c) indices
           else
             let width = MOTypeFixedSize abi oid in
             if width \<le> 0 then Inl (Invalid_argument ''unsupported MO stream vector type'')
             else bindR (mem_read (cv_data c) (source_row constant source_offset 0 * nat width) (rows * nat width))
               (\<lambda>block. Inr (raw_slots (nat width) rows block)))
          (\<lambda>slots. Inr \<lparr>dv_constant = constant, dv_slots = slots,
             dv_valid = map (\<lambda>row. \<not> (\<not> constant \<and> cv_null_count c \<noteq> 0 \<and> is_null c (source_offset + row))) [0..<rows]\<rparr>))"

end
