(* ===== verification/Native_Batch_Correct.thy ===== *)
theory Native_Batch_Correct
  imports Native_Batch
begin

text \<open>
  What the constructor of \<^verbatim>\<open>native_batch_view\<close> guarantees of a batch it accepts: lengths, null
  bitmaps and varlena descriptors are consistent, so that the scan reads only inside the frame.
\<close>

section \<open>Null bitmaps\<close>

text \<open>The rows that a bitmap marks: bit \<open>r mod 64\<close> of word \<open>r div 64\<close>.\<close>

definition null_rows :: "u64 list \<Rightarrow> nat set" where
  "null_rows ws = {r. r < 64 * length ws \<and> bit (ws ! (r div 64)) (r mod 64)}"

lemma finite_null_rows [simp]: "finite (null_rows ws)"
  by (simp add: null_rows_def)

lemma popcount_card: "popcount w = card {b. b < 64 \<and> bit w b}"
proof -
  have "popcount w = card (set (filter (bit w) [0..<64]))"
    unfolding popcount_def by (rule distinct_card [symmetric]) simp
  also have "set (filter (bit w) [0..<64]) = {b. b < 64 \<and> bit w b}" by auto
  finally show ?thesis .
qed

lemma null_rows_Nil [simp]: "null_rows [] = {}"
  by (simp add: null_rows_def)

lemma null_rows_Cons:
  "null_rows (w # ws) = {b. b < 64 \<and> bit w b} \<union> (+) 64 ` null_rows ws"
proof (rule set_eqI)
  fix r
  show "r \<in> null_rows (w # ws) \<longleftrightarrow> r \<in> {b. b < 64 \<and> bit w b} \<union> (+) 64 ` null_rows ws"
  proof (cases "r < 64")
    case True
    then show ?thesis by (auto simp: null_rows_def)
  next
    case False
    then obtain q where r: "r = 64 + q" using le_Suc_ex not_le by blast
    have "(64 + q) div 64 = Suc (q div 64)" and "(64 + q) mod 64 = q mod 64" by simp_all
    then show ?thesis unfolding r by (auto simp: null_rows_def)
  qed
qed

lemma card_null_rows_Cons: "card (null_rows (w # ws)) = popcount w + card (null_rows ws)"
proof -
  have "{b. b < 64 \<and> bit w b} \<inter> (+) 64 ` null_rows ws = {}" by auto
  then show ?thesis
    by (simp add: null_rows_Cons card_Un_disjoint card_image popcount_card)
qed

lemma bit_allowed_mask: "b < 64 \<Longrightarrow> bit (allowed_mask n) b \<longleftrightarrow> b < n"
proof (cases "64 \<le> n")
  case True
  have "(0xffffffffffffffff :: u64) = mask 64" by (simp add: mask_eq_exp_minus_1)
  then have "allowed_mask n = mask 64" using True by (simp add: allowed_mask_def)
  then show "b < 64 \<Longrightarrow> ?thesis" using True by (simp add: bit_mask_iff)
next
  case False
  then have "allowed_mask n = mask n"
    by (simp add: allowed_mask_def mask_eq_exp_minus_1 push_bit_eq_mult)
  then show "b < 64 \<Longrightarrow> ?thesis" using False by (simp add: bit_mask_iff)
qed

lemma allowed_mask_iff:
  "w AND NOT (allowed_mask n) = 0 \<longleftrightarrow> (\<forall>b < 64. bit w b \<longrightarrow> b < n)"
proof
  assume zero: "w AND NOT (allowed_mask n) = 0"
  show "\<forall>b < 64. bit w b \<longrightarrow> b < n"
  proof (intro allI impI)
    fix b :: nat assume "b < 64" and "bit w b"
    have "\<not> bit (w AND NOT (allowed_mask n)) b" using zero by simp
    with \<open>b < 64\<close> \<open>bit w b\<close> show "b < n"
      using bit_allowed_mask [of b n] by (simp add: bit_and_iff bit_not_iff)
  qed
next
  assume small: "\<forall>b < 64. bit w b \<longrightarrow> b < n"
  show "w AND NOT (allowed_mask n) = 0"
    by (rule bit_word_eqI) (use small in \<open>auto simp: bit_and_iff bit_not_iff bit_allowed_mask\<close>)
qed

lemma null_word_loop_InrD:
  assumes "null_word_loop rows k actual ws = Inr n"
  shows "n = actual + of_nat (card (null_rows ws)) \<and> (\<forall>r \<in> null_rows ws. 64 * k + r < rows)"
  using assms
proof (induction ws arbitrary: k actual)
  case Nil
  then show ?case by simp
next
  case (Cons w ws)
  let ?remaining = "if 64 * k < rows then rows - 64 * k else 0"
  from Cons.prems have mask: "w AND NOT (allowed_mask ?remaining) = 0"
    and rest: "null_word_loop rows (Suc k) (actual + of_nat (popcount w)) ws = Inr n"
    by (simp_all only: null_word_loop.simps Let_def split: if_split_asm)
      (auto split: if_splits)
  from Cons.IH [OF rest] have IH: "n = actual + of_nat (popcount w) + of_nat (card (null_rows ws))"
    "\<forall>r \<in> null_rows ws. 64 * Suc k + r < rows" by simp_all
  have "64 * k + b < rows" if "b < 64" "bit w b" for b
    using mask that by (auto simp: allowed_mask_iff split: if_splits)
  then have "\<forall>r \<in> null_rows (w # ws). 64 * k + r < rows"
    using IH(2) by (auto simp: null_rows_Cons)
  then show ?case using IH(1) by (simp add: card_null_rows_Cons add.assoc)
qed

lemma null_word_loop_Inr:
  assumes "\<forall>r \<in> null_rows ws. 64 * k + r < rows"
  shows "null_word_loop rows k actual ws = Inr (actual + of_nat (card (null_rows ws)))"
  using assms
proof (induction ws arbitrary: k actual)
  case Nil
  then show ?case by simp
next
  case (Cons w ws)
  let ?remaining = "if 64 * k < rows then rows - 64 * k else 0"
  have "64 * k + b < rows" if "b < 64" "bit w b" for b
    using Cons.prems that by (auto simp: null_rows_Cons)
  then have "b < ?remaining" if "b < 64" "bit w b" for b
    using that by fastforce
  then have mask: "w AND NOT (allowed_mask ?remaining) = 0" by (simp add: allowed_mask_iff)
  have "64 * k + (64 + r) < rows" if "r \<in> null_rows ws" for r
    using Cons.prems that by (simp add: null_rows_Cons)
  then have "\<forall>r \<in> null_rows ws. 64 * Suc k + r < rows" by (simp add: ac_simps)
  from Cons.IH [OF this] mask show ?case
    by (simp only: null_word_loop.simps Let_def simp_thms if_False card_null_rows_Cons)
      (simp add: add.assoc)
qed

text \<open>The whole bitmap: what an accepted one says.\<close>

lemma parse_nulls_InrD:
  assumes "parse_nulls nulls rows = Inr (n, ws)"
  shows "unat n = card (null_rows (words_of ws)) \<and> (\<forall>r \<in> null_rows (words_of ws). r < unat rows)"
proof (cases "nulls = []")
  case True
  with assms show ?thesis by (simp add: parse_nulls_def words_of.simps)
next
  case False
  with assms have ws: "ws = drop mo_bitmap_header_bytes nulls"
    and loop: "null_word_loop (unat rows) 0 0 (words_of ws) = Inr n"
    by (auto simp: parse_nulls_def Let_def split: if_splits)
  have bound: "\<forall>r \<in> null_rows (words_of ws). r < unat rows"
    and n: "n = of_nat (card (null_rows (words_of ws)))"
    using null_word_loop_InrD [OF loop] by simp_all
  have "null_rows (words_of ws) \<subseteq> {..<unat rows}" using bound by auto
  then have "card (null_rows (words_of ws)) \<le> unat rows"
    using card_mono [of "{..<unat rows}"] by simp
  then have "card (null_rows (words_of ws)) < 2 ^ 64"
    using unat_u64_less [of rows] by linarith
  with n bound show ?thesis by (simp add: unat_of_nat_u64)
qed

section \<open>Varlena descriptors\<close>

text \<open>The descriptor of a row, and the extent it may name.\<close>

definition descriptor :: "tae_abi \<Rightarrow> bytes \<Rightarrow> nat \<Rightarrow> bytes" where
  "descriptor abi data row = take (VARLENA_SIZE abi) (drop (row * VARLENA_SIZE abi) data)"

definition descriptor_ok :: "tae_abi \<Rightarrow> bytes \<Rightarrow> bytes \<Rightarrow> bool" where
  "descriptor_ok abi area v \<longleftrightarrow>
     vl_is_inline abi v \<or>
     (load_le 4 v 0 = VARLENA_BIG_MARKER abi \<and>
      unat (vl_big_offset abi v) + unat (vl_big_length abi v) \<le> length area)"

lemma varlena_loop_iff:
  "varlena_loop abi data area row n = Inr () \<longleftrightarrow>
     (\<forall>i < n. descriptor_ok abi area (descriptor abi data (row + i)))"
proof (induction n arbitrary: row)
  case 0
  then show ?case by simp
next
  case (Suc n)
  have "varlena_loop abi data area row (Suc n) = Inr () \<longleftrightarrow>
      descriptor_ok abi area (descriptor abi data row) \<and> varlena_loop abi data area (Suc row) n = Inr ()"
    by (auto simp: descriptor_ok_def descriptor_def Let_def split: if_splits)
  also have "\<dots> \<longleftrightarrow> (\<forall>i < Suc n. descriptor_ok abi area (descriptor abi data (row + i)))"
    unfolding Suc.IH using less_Suc_eq_0_disj by auto
  finally show ?case .
qed

section \<open>Accepted columns\<close>

definition element_size :: "tae_abi \<Rightarrow> mo_type \<Rightarrow> nat" where
  "element_size abi t =
     (let f = MOTypeFixedSize abi (unat (mt_oid t)) in if f < 0 then VARLENA_SIZE abi else nat f)"

definition column_ok :: "tae_abi \<Rightarrow> nat \<Rightarrow> substrait_type \<Rightarrow> native_column_view \<Rightarrow> bool" where
  "column_ok abi rows expected c \<longleftrightarrow>
     cv_vector_class c \<in> {mo_vector_flat, mo_vector_constant} \<and>
     substrait_matches_mo abi expected (cv_type c) \<and>
     unat (cv_logical_rows c) = rows \<and>
     length (cv_data c) = physical_rows c * element_size abi (cv_type c) \<and>
     unat (cv_null_count c) = card (null_rows (words_of (cv_null_words c))) \<and>
     (\<forall>r \<in> null_rows (words_of (cv_null_words c)). r < rows) \<and>
     (if MOTypeFixedSize abi (unat (mt_oid (cv_type c))) < 0
      then \<forall>i < physical_rows c. descriptor_ok abi (cv_area c) (descriptor abi (cv_data c) i)
      else cv_area c = [])"

context tae_layout
begin

text \<open>A matched type has one of six element sizes.\<close>

lemma matches_element_size:
  assumes "substrait_matches_mo abi expected t"
  shows "element_size abi t \<in> {1, 2, 4, 8, 16, 24}"
    and "MOTypeFixedSize abi (unat (mt_oid t)) \<noteq> 0"
    and "MOTypeFixedSize abi (unat (mt_oid t)) < 0 \<longleftrightarrow>
      unat (mt_oid t) = MO_T_char abi \<or> unat (mt_oid t) = MO_T_varchar abi"
    and "unat (mt_oid t) = MO_T_date abi \<Longrightarrow> element_size abi t = 4"
  using assms text_varlena
  by (cases expected; auto simp: element_size_def Let_def layout_facts split: if_splits)+

lemma element_size_int:
  assumes "substrait_matches_mo abi expected t"
  shows "(let f = MOTypeFixedSize abi (unat (mt_oid t)) in if f < 0 then int (VARLENA_SIZE abi) else f) =
    int (element_size abi t)"
  using matches_element_size(2) [OF assms] by (simp add: element_size_def Let_def)

lemma product_fits:
  assumes "unat (rows :: u64) < 2 ^ 32" and "n \<le> 24"
  shows "unat (rows * of_nat n) = unat rows * n"
proof -
  have "unat rows * n \<le> 2 ^ 32 * 24" using assms by (intro mult_le_mono) auto
  then have "unat rows * n < 2 ^ 64" by simp
  moreover have "unat (of_nat n :: u64) = n" using assms(2) by (intro unat_of_nat_u64) simp
  ultimately show ?thesis using unat_mult_lem [of rows "of_nat n"] by simp
qed

lemma parse_column_ok:
  assumes parsed: "parse_column abi bs rows expected = Inr c" and rows: "unat rows < 2 ^ 32"
  shows "column_ok abi (unat rows) expected c"
proof -
  let ?t = "cv_type c" and ?f = "MOTypeFixedSize abi (unat (mt_oid (cv_type c)))"
  from parsed obtain nulls where cls: "cv_vector_class c \<in> {mo_vector_flat, mo_vector_constant}"
    and match: "substrait_matches_mo abi expected ?t"
    and len: "uint (cv_logical_rows c) = uint rows"
    and data: "unat (if cv_vector_class c = mo_vector_constant
          then (if cv_data c = [] then 0 else of_int (if ?f < 0 then int (VARLENA_SIZE abi) else ?f))
          else rows * of_int (if ?f < 0 then int (VARLENA_SIZE abi) else ?f) :: u64) = length (cv_data c)"
    and area: "?f \<ge> 0 \<Longrightarrow> cv_area c = []"
    and nulls: "parse_nulls nulls rows = Inr (cv_null_count c, cv_null_words c)"
    and loop: "?f < 0 \<Longrightarrow> varlena_loop abi (cv_data c) (cv_area c) 0 (physical_rows c) = Inr ()"
    by (auto simp: parse_column_def Let_def physical_rows_def split: if_splits prod.splits)
  have unat_len: "unat (cv_logical_rows c) = unat rows"
    using len by (metis unat_eq_nat_uint)
  note size = matches_element_size [OF match]
  have es: "(if ?f < 0 then int (VARLENA_SIZE abi) else ?f) = int (element_size abi ?t)"
    using element_size_int [OF match] by (simp add: Let_def)
  have "element_size abi ?t \<le> 24" using size(1) by auto
  then have "length (cv_data c) = physical_rows c * element_size abi ?t"
    using data unat_len product_fits [OF rows] unfolding es
    by (auto simp: physical_rows_def unat_of_nat_u64 split: if_splits)
  then show ?thesis
    using cls match unat_len area loop parse_nulls_InrD [OF nulls]
    by (simp add: column_ok_def varlena_loop_iff)
qed

lemma parse_columns_ok:
  assumes "parse_columns abi rows types bs = Inr (cs, rest)" and "unat rows < 2 ^ 32"
  shows "list_all2 (column_ok abi (unat rows)) types cs"
  using assms
proof (induction types arbitrary: bs cs)
  case Nil
  then show ?case by simp
next
  case (Cons t types)
  then show ?case by (auto split: prod.splits intro: parse_column_ok)
qed

lemma new_native_batch_view_ok:
  assumes "new_native_batch_view abi frame envelope schema = Inr b"
  shows "0 < unat (bv_rows b) \<and> unat (bv_rows b) < 2 ^ 32 \<and> bv_sequence b = nf_sequence envelope \<and>
    length (ns_names schema) = length (ns_types schema) \<and>
    list_all2 (column_ok abi (unat (bv_rows b))) (ns_types schema) (bv_columns b)"
proof -
  from assms obtain signed_rows b2 b3 cs where
      range: "\<not> signed_rows < 0" "\<not> 0xffffffff < signed_rows"
      and nz: "(of_int signed_rows :: u64) \<noteq> 0"
      and count: "length (ns_names schema) = length (ns_types schema)"
      and cols: "parse_columns abi (of_int signed_rows) (ns_types schema) b2 = Inr (cs, b3)"
      and b: "b = \<lparr>bv_frame = frame, bv_sequence = nf_sequence envelope, bv_rows = of_int signed_rows,
        bv_payload_bytes = of_nat (length (nf_payload envelope)), bv_columns = cs\<rparr>"
    by (auto simp: new_native_batch_view_def Let_def split: if_splits prod.splits)
  from range obtain n where n: "signed_rows = int n" "n \<le> 0xffffffff"
    by (intro that [of "nat signed_rows"]) auto
  have rows: "unat (of_int signed_rows :: u64) = n"
    using n by (simp add: unat_of_nat_u64)
  have "unat (of_int signed_rows :: u64) < 2 ^ 32" using rows n by simp
  with parse_columns_ok [OF cols] nz b count show ?thesis
    by (auto simp: unat_gt_0)
qed

section \<open>Filling never leaves the buffers\<close>

lemma mapR_is_ok: "(\<And>x. x \<in> set xs \<Longrightarrow> is_ok (f x)) \<Longrightarrow> is_ok (mapR f xs)"
proof (induction xs)
  case (Cons x xs)
  then have "is_ok (f x)" "is_ok (mapR f xs)" by simp_all
  then show ?case by (auto simp: is_ok_iff)
qed simp

lemma is_ok_bindR: "is_ok m \<Longrightarrow> (\<And>x. m = Inr x \<Longrightarrow> is_ok (f x)) \<Longrightarrow> is_ok (bindR m f)"
  by (cases m) simp_all

lemma is_ok_mem_read [simp]: "is_ok (mem_read buffer off n) \<longleftrightarrow> off + n \<le> length buffer"
  by (simp add: mem_read_def)

lemma mem_read_InrD: "mem_read buffer off n = Inr x \<Longrightarrow> x = take n (drop off buffer) \<and> length x = n"
  by (auto simp: mem_read_def split: if_splits)

lemma fill_text_safe:
  assumes ok: "column_ok abi rows expected c" and i: "index < physical_rows c"
    and varlen: "MOTypeFixedSize abi (unat (mt_oid (cv_type c))) < 0"
  shows "is_ok (fill_text abi is_null c index)"
proof -
  have len: "length (cv_data c) = physical_rows c * 24"
    and desc: "descriptor_ok abi (cv_area c) (descriptor abi (cv_data c) index)"
    using ok varlen i by (auto simp: column_ok_def element_size_def varlena_size)
  have "Suc index * 24 \<le> physical_rows c * 24" using i by (intro mult_le_mono1) simp
  then have bound: "index * 24 + 24 \<le> length (cv_data c)" using len by simp
  show ?thesis
  proof (cases "is_null c index")
    case True
    then show ?thesis by (simp add: fill_text_def)
  next
    case False
    let ?v = "descriptor abi (cv_data c) index"
    have read: "mem_read (cv_data c) (index * VARLENA_SIZE abi) 24 = Inr ?v"
      using bound by (simp add: mem_read_def varlena_size descriptor_def)
    have "length ?v = 24" using bound by (simp add: descriptor_def varlena_size)
    moreover have "unat (ucast (?v ! 0) :: u32) = unat (?v ! 0)"
      using unsigned_less [of "?v ! 0", where 'a = nat]
      by (simp add: unsigned_ucast_eq take_bit_nat_eq_self)
    ultimately have "is_ok (mem_read ?v 1 (unat (vl_inline_length abi ?v)))" if "vl_is_inline abi ?v"
      using that by (simp add: is_inline inline_length)
    with desc read False show ?thesis
      by (auto simp: fill_text_def descriptor_ok_def inline_data intro!: is_ok_bindR)
  qed
qed

lemma fill_column_safe:
  assumes ok: "column_ok abi rows expected c" and range: "source_offset + count \<le> rows"
  shows "is_ok (fill_column abi is_null c count source_offset)"
proof -
  let ?constant = "cv_vector_class c = mo_vector_constant" and ?oid = "unat (mt_oid (cv_type c))"
  let ?rows = "if ?constant then 1 else count"
  let ?indices = "map (source_row ?constant source_offset) [0..<?rows]"
  have match: "substrait_matches_mo abi expected (cv_type c)" and logical: "unat (cv_logical_rows c) = rows"
    and len: "length (cv_data c) = physical_rows c * element_size abi (cv_type c)"
    using ok by (auto simp: column_ok_def)
  note size = matches_element_size [OF match]
  consider (null) "?constant" "cv_data c = [] \<or> is_null c 0" | (live) "?constant \<Longrightarrow> cv_data c \<noteq> []"
      "\<not> (?constant \<and> (cv_data c = [] \<or> is_null c 0))"
    by blast
  then show ?thesis
  proof cases
    case null
    then show ?thesis by (simp add: fill_column_def)
  next
    case live
    have index: "i < physical_rows c" if "i \<in> set ?indices" for i
      using that live(1) range logical
      by (auto simp: physical_rows_def source_row_def split: if_splits)
    have block: "source_row ?constant source_offset 0 + ?rows \<le> physical_rows c"
      using live(1) range logical by (auto simp: physical_rows_def source_row_def)
    have strings_ok: "is_ok (mapR (fill_text abi is_null c) ?indices)" if "?oid = MO_T_char abi \<or> ?oid = MO_T_varchar abi"
      using that size(3) index by (intro mapR_is_ok fill_text_safe [OF ok]) auto
    have date_ok: "is_ok (mapR (fill_date abi c) ?indices)" if "?oid = MO_T_date abi"
    proof (rule mapR_is_ok)
      fix i assume "i \<in> set ?indices"
      then have "Suc i * 4 \<le> physical_rows c * 4" using index by (intro mult_le_mono1) (simp add: Suc_leI)
      then show "is_ok (fill_date abi c i)"
        using len size(4) [OF that] by (auto simp: fill_date_def intro!: is_ok_bindR)
    qed
    have raw_ok: "is_ok (mem_read (cv_data c) (source_row ?constant source_offset 0 * nat (MOTypeFixedSize abi ?oid))
        (?rows * nat (MOTypeFixedSize abi ?oid)))" if "\<not> MOTypeFixedSize abi ?oid \<le> 0"
      using mult_le_mono1 [OF block, of "nat (MOTypeFixedSize abi ?oid)"] len that
      by (simp add: element_size_def add_mult_distrib)
    consider (strings) "?oid = MO_T_char abi \<or> ?oid = MO_T_varchar abi"
      | (date) "\<not> (?oid = MO_T_char abi \<or> ?oid = MO_T_varchar abi)" "?oid = MO_T_date abi"
      | (raw) "\<not> (?oid = MO_T_char abi \<or> ?oid = MO_T_varchar abi)" "?oid \<noteq> MO_T_date abi"
        "\<not> MOTypeFixedSize abi ?oid \<le> 0"
      using size(2,3) by linarith
    then show ?thesis
    proof cases
      case strings
      show ?thesis
        unfolding fill_column_def Let_def if_not_P [OF live(2)] if_P [OF strings] by (intro is_ok_bindR strings_ok strings) simp_all
    next
      case date
      show ?thesis
        unfolding fill_column_def Let_def if_not_P [OF live(2)] if_not_P [OF date(1)] if_P [OF date(2)] by (intro is_ok_bindR date_ok date(2)) simp_all
    next
      case raw
      show ?thesis
        unfolding fill_column_def Let_def if_not_P [OF live(2)] if_not_P [OF raw(1)] if_not_P [OF raw(2)] if_not_P [OF raw(3)]
        by (intro is_ok_bindR raw_ok raw(3)) simp_all
    qed
  qed
qed

end

section \<open>Properties of accepted batches\<close>

text \<open>A concrete batch of two rows: an \<open>INT\<close> column whose second row is null, and a \<open>VARCHAR\<close> column with
  an inline string and one in the area.\<close>

definition demo_schema :: named_struct where
  "demo_schema = \<lparr>ns_names = [bytes_of ''a'', bytes_of ''b''], ns_has_struct = True, ns_types = [KI32, KVarchar]\<rparr>"

definition demo_int_vector :: bytes where
  "demo_int_vector =
     [0] @ encode_mo_type \<lparr>mt_oid = 22, mt_charset = 0, mt_not_null = 0, mt_dummy = 0, mt_size = 4, mt_width = 0, mt_scale = 0\<rparr> @
     store_le 4 (2 :: u32) @ store_le 4 (8 :: u32) @ store_le 4 (7 :: u32) @ store_le 4 (9 :: u32) @
     store_le 4 (0 :: u32) @
     store_le 4 (32 :: u32) @ store_le 8 (1 :: u64) @ store_le 8 (2 :: u64) @ store_le 8 (8 :: u64) @ store_le 8 (2 :: u64) @
     [0]"

definition demo_text_vector :: bytes where
  "demo_text_vector =
     [0] @ encode_mo_type \<lparr>mt_oid = 41, mt_charset = 0, mt_not_null = 0, mt_dummy = 0, mt_size = 24, mt_width = 0, mt_scale = 0\<rparr> @
     store_le 4 (2 :: u32) @ store_le 4 (48 :: u32) @
     ([2, 104, 105] @ replicate 21 0) @
     (store_le 4 (0xffffffff :: u32) @ store_le 4 (0 :: u32) @ store_le 4 (25 :: u32) @ replicate 12 0) @
     store_le 4 (25 :: u32) @ replicate 25 120 @
     store_le 4 (0 :: u32) @ [0]"

definition demo_payload :: bytes where
  "demo_payload =
     store_le 8 (2 :: u64) @ store_le 4 (2 :: u32) @
     store_le 4 (of_nat (length demo_int_vector) :: u32) @ demo_int_vector @
     store_le 4 (of_nat (length demo_text_vector) :: u32) @ demo_text_vector @
     store_le 4 (0 :: u32) @ store_le 4 (0 :: u32) @ store_le 4 (0 :: u32) @ store_le 4 (0 :: u32)"

definition demo_view :: "native_batch_view res" where
  "demo_view = new_native_batch_view design_abi [] \<lparr>nf_sequence = 1, nf_payload = demo_payload\<rparr> demo_schema"

lemma demo_view_eval:
  "case demo_view of Inl _ \<Rightarrow> False | Inr b \<Rightarrow> length (bv_columns b) = 2 \<and> unat (bv_rows b) = 2"
  by code_simp

lemma demo_view_ok: "demo_view = Inr (projr demo_view)"
  and demo_view_shape: "length (bv_columns (projr demo_view)) = 2" "unat (bv_rows (projr demo_view)) = 2"
  using demo_view_eval unfolding case_Inr_iff by (metis sum.sel(2))+

text \<open>
  C9: A native batch the constructor accepts has 1 to 2^32-1 rows, one column per schema column,
  and every column is well formed: matching type, exact data length, a null bitmap whose count
  equals its set bits with no bit outside the rows, and varlena descriptors inside the area.
\<close>

theorem native_batch_view_wf:
  assumes "tae_layout abi" and "new_native_batch_view abi frame envelope schema = Inr b"
  shows "0 < unat (bv_rows b) \<and> unat (bv_rows b) < 2 ^ 32 \<and> bv_sequence b = nf_sequence envelope \<and>
    length (ns_names schema) = length (ns_types schema) \<and>
    list_all2 (column_ok abi (unat (bv_rows b))) (ns_types schema) (bv_columns b)"
  using assms by (rule tae_layout.new_native_batch_view_ok)

theorem native_batch_view_wf_witness:
  "list_all2 (column_ok design_abi (unat (bv_rows (projr demo_view)))) (ns_types demo_schema) (bv_columns (projr demo_view))"
  using native_batch_view_wf [OF design.tae_layout_axioms demo_view_ok [unfolded demo_view_def]]
  by (simp add: demo_view_def)

text \<open>
  C10: Filling a DuckDB vector from any row range of an accepted batch never reads outside the
  data or area buffers and never throws, whatever the null test answers.
\<close>

theorem scan_reads_in_bounds:
  assumes "tae_layout abi" and "new_native_batch_view abi frame envelope schema = Inr b"
    and "j < length (bv_columns b)" and "source_offset + count \<le> unat (bv_rows b)"
  shows "is_ok (fill_column abi is_null (bv_columns b ! j) count source_offset)"
proof -
  have "list_all2 (column_ok abi (unat (bv_rows b))) (ns_types schema) (bv_columns b)"
    using tae_layout.new_native_batch_view_ok [OF assms(1,2)] by simp
  then have "column_ok abi (unat (bv_rows b)) (ns_types schema ! j) (bv_columns b ! j)"
    using assms(3) by (metis list_all2_conv_all_nth)
  then show ?thesis using assms(1,4) tae_layout.fill_column_safe by blast
qed

theorem scan_reads_in_bounds_witness:
  "is_ok (fill_column design_abi (\<lambda>_ row. row = 1) (bv_columns (projr demo_view) ! 1) 1 1)"
  by (rule scan_reads_in_bounds [OF design.tae_layout_axioms demo_view_ok [unfolded demo_view_def],
        folded demo_view_def])
    (simp_all add: demo_view_shape)

end
