(* ===== verification/Stream_Input.thy ===== *)
theory Stream_Input
  imports Native_Batch
begin

text \<open>
  The hand-over of native batches between an upload handler and the scan (\<^verbatim>\<open>stream_input\<close> and
  \<^verbatim>\<open>stream_input_registry\<close> in \<^verbatim>\<open>stream_input.cpp\<close>), and the table function that drains it.

  Every method of \<^verbatim>\<open>stream_input\<close> holds \<^verbatim>\<open>mutex_\<close> except while it waits.  One definition below is one
  critical section, up to the next point where the lock is given up; \<open>upload_pc\<close> says at which
  wait a method stands.  A wait that is woken runs the same loop head again.

  The uploads wait with \<^verbatim>\<open>wait_for\<close> and wake by themselves after 100 ms.  \<^verbatim>\<open>next_batch\<close> waits with
  \<^verbatim>\<open>wait\<close>, which only a notification (or a spurious wake-up) ends: \<open>si_waiters\<close> holds the callers
  that sleep there, and \<^verbatim>\<open>notify_all\<close> empties it at the places where the code calls it.
\<close>

section \<open>State\<close>

record stream_input =
  si_batch :: "native_batch_view option"
  si_error :: string
  si_acknowledged_batches :: u64
  si_acknowledged_rows :: u64
  si_acknowledged_bytes :: u64
  si_attached :: bool
  si_detached :: bool
  si_producer_eof :: bool
  si_consumer_eof :: bool
  si_not_needed :: bool
  si_cancelled :: bool
  si_waiters :: "nat set"

definition new_stream_input :: stream_input where
  "new_stream_input =
     \<lparr>si_batch = None, si_error = [], si_acknowledged_batches = 0, si_acknowledged_rows = 0,
      si_acknowledged_bytes = 0, si_attached = False, si_detached = False, si_producer_eof = False,
      si_consumer_eof = False, si_not_needed = False, si_cancelled = False, si_waiters = {}\<rparr>"

text \<open>\<^verbatim>\<open>condition_.notify_all()\<close>\<close>

definition notify_all :: "stream_input \<Rightarrow> stream_input" where
  "notify_all s = s\<lparr>si_waiters := {}\<rparr>"

declare notify_all_def [simp]

definition input_error_text :: "stream_input \<Rightarrow> string" where
  "input_error_text s = (if si_error s = [] then ''StreamRead input was cancelled'' else si_error s)"

definition terminal_status_locked :: "stream_input \<Rightarrow> arrow_status" where
  "terminal_status_locked s = St_Cancelled (input_error_text s)"

text \<open>The logical types of a schema: \<^verbatim>\<open>logical_type\<close> of every column.\<close>

datatype duck_type =
    D_BOOLEAN | D_TINYINT | D_SMALLINT | D_INTEGER | D_BIGINT | D_FLOAT | D_DOUBLE | D_VARCHAR | D_DATE
  | D_DECIMAL int int | D_HUGEINT

fun logical_type :: "substrait_type \<Rightarrow> duck_type res" where
  "logical_type KBool = Inr D_BOOLEAN"
| "logical_type KI8 = Inr D_TINYINT"
| "logical_type KI16 = Inr D_SMALLINT"
| "logical_type KI32 = Inr D_INTEGER"
| "logical_type KI64 = Inr D_BIGINT"
| "logical_type KFp32 = Inr D_FLOAT"
| "logical_type KFp64 = Inr D_DOUBLE"
| "logical_type KString = Inr D_VARCHAR"
| "logical_type KVarchar = Inr D_VARCHAR"
| "logical_type KDate = Inr D_DATE"
| "logical_type (KDecimal precision scale) = Inr (D_DECIMAL precision scale)"
| "logical_type KOther = Inl (Invalid_argument ''unsupported StreamRead logical type'')"

text \<open>The constructor's checks; the result is the column types that \<^verbatim>\<open>types()\<close> returns.\<close>

definition stream_input_types :: "named_struct \<Rightarrow> duck_type list res" where
  "stream_input_types schema =
     (if \<not> ns_has_struct schema \<or> ns_names schema = [] \<or> length (ns_names schema) \<noteq> length (ns_types schema)
      then Inl (Invalid_argument ''StreamRead schema is incomplete'')
      else mapR logical_type (ns_types schema))"

section \<open>Producer operations\<close>

definition si_attach :: "stream_input \<Rightarrow> stream_input \<times> arrow_status" where
  "si_attach s =
     (if si_attached s then (s, St_Invalid ''StreamRead input was already attached'')
      else if si_cancelled s then (s, terminal_status_locked s)
      else (s\<lparr>si_attached := True, si_detached := False\<rparr>, St_OK))"

definition ack_of :: "stream_input \<Rightarrow> bool \<Rightarrow> bool \<Rightarrow> upload_input_ack" where
  "ack_of s complete not_needed =
     \<lparr>ack_batches = si_acknowledged_batches s, ack_rows = si_acknowledged_rows s,
      ack_bytes = si_acknowledged_bytes s, ack_complete = complete, ack_not_needed = not_needed,
      ack_ready = False\<rparr>"

datatype upload_pc =
    Wait_empty native_batch_view
  | Wait_consumed native_batch_view
  | Wait_eof
  | Returned "upload_input_ack arrow_result"

definition input_terminal :: "stream_input \<Rightarrow> bool" where
  "input_terminal s \<longleftrightarrow> si_cancelled s \<or> si_not_needed s"

text \<open>The second loop of \<^verbatim>\<open>publish\<close> and what follows it.\<close>

definition publish_consumed :: "stream_input \<Rightarrow> native_batch_view \<Rightarrow> upload_pc" where
  "publish_consumed s b =
     (if si_batch s \<noteq> None \<and> \<not> si_cancelled s \<and> \<not> si_not_needed s then Wait_consumed b
      else if si_cancelled s then Returned (Inl (terminal_status_locked s))
      else Returned (Inr (ack_of s (si_not_needed s) (si_not_needed s))))"

text \<open>The first loop of \<^verbatim>\<open>publish\<close>, the placement of the batch, and the head of the second loop.\<close>

definition publish_place :: "stream_input \<Rightarrow> native_batch_view \<Rightarrow> stream_input \<times> upload_pc" where
  "publish_place s b =
     (if si_batch s \<noteq> None \<and> \<not> si_cancelled s \<and> \<not> si_not_needed s then (s, Wait_empty b)
      else if si_cancelled s then (s, Returned (Inl (terminal_status_locked s)))
      else if si_not_needed s then (s, Returned (Inr (ack_of s True True)))
      else
        let s' = notify_all (s\<lparr>si_batch := Some b\<rparr>) in (s', publish_consumed s' b))"

text \<open>The entry of \<^verbatim>\<open>publish\<close> once the frame is decoded.\<close>

definition publish_decoded :: "stream_input \<Rightarrow> native_batch_view \<Rightarrow> stream_input \<times> upload_pc" where
  "publish_decoded s b =
     (if \<not> si_attached s \<or> si_detached s \<or> si_producer_eof s
      then (s, Returned (Inl (St_Invalid ''StreamRead input is not writable'')))
      else if bv_sequence b \<noteq> si_acknowledged_batches s + 1
      then (s, Returned (Inl (St_Invalid ''MO native batch sequence is not contiguous'')))
      else publish_place s b)"

text \<open>Decoding, before the lock is taken; a null frame pointer is \<open>None\<close>.\<close>

definition publish_decode :: "tae_abi \<Rightarrow> named_struct \<Rightarrow> bytes \<Rightarrow> native_batch_view res" where
  "publish_decode abi schema frame =
     bindR (parse_native_batch_frame frame) (\<lambda>envelope. new_native_batch_view abi frame envelope schema)"

definition si_publish ::
  "tae_abi \<Rightarrow> named_struct \<Rightarrow> stream_input \<Rightarrow> bytes option \<Rightarrow> (stream_input \<times> upload_pc) res" where
  "si_publish abi schema s frame =
     (case frame of
        None \<Rightarrow> Inr (s, Returned (Inl (St_Invalid ''MO native batch frame is empty'')))
      | Some bs \<Rightarrow> bindR (publish_decode abi schema bs) (\<lambda>b. Inr (publish_decoded s b)))"

text \<open>The loop of \<^verbatim>\<open>finish_upload\<close> and what follows it.\<close>

definition finish_wait :: "stream_input \<Rightarrow> upload_pc" where
  "finish_wait s =
     (if \<not> si_consumer_eof s \<and> \<not> si_cancelled s \<and> \<not> si_not_needed s then Wait_eof
      else if si_cancelled s then Returned (Inl (terminal_status_locked s))
      else Returned (Inr (ack_of s True (si_not_needed s))))"

definition si_finish_upload :: "stream_input \<Rightarrow> stream_input \<times> upload_pc" where
  "si_finish_upload s = (let s' = notify_all (s\<lparr>si_producer_eof := True\<rparr>) in (s', finish_wait s'))"

text \<open>One round of a waiting method: \<^verbatim>\<open>stopped()\<close> is asked first; a stopped caller returns, any
  other one waits and then evaluates its loop condition again.\<close>

definition upload_wake :: "stream_input \<Rightarrow> upload_pc \<Rightarrow> stream_input \<times> upload_pc" where
  "upload_wake s pc =
     (case pc of
        Wait_empty b \<Rightarrow> publish_place s b
      | Wait_consumed b \<Rightarrow> (s, publish_consumed s b)
      | Wait_eof \<Rightarrow> (s, finish_wait s)
      | Returned r \<Rightarrow> (s, Returned r))"

definition upload_stopped :: "upload_pc \<Rightarrow> upload_pc" where
  "upload_stopped pc =
     (case pc of Returned r \<Rightarrow> Returned r
      | _ \<Rightarrow> Returned (Inl (St_Cancelled ''StreamRead upload was cancelled'')))"

definition si_detach :: "stream_input \<Rightarrow> stream_input" where
  "si_detach s = notify_all (s\<lparr>si_detached := True\<rparr>)"

section \<open>Consumer operations\<close>

datatype batch_result = Batch_blocked | Batch_eof | Batch_ready native_batch_view | Batch_throws exn

text \<open>\<^verbatim>\<open>next_batch\<close>, called by the thread \<open>w\<close> or woken again: it sleeps while its predicate does not hold.\<close>

definition si_next_batch :: "nat \<Rightarrow> stream_input \<Rightarrow> stream_input \<times> batch_result" where
  "si_next_batch w s =
     (if \<not> (si_batch s \<noteq> None \<or> si_producer_eof s \<or> si_cancelled s \<or> si_not_needed s)
      then (s\<lparr>si_waiters := insert w (si_waiters s)\<rparr>, Batch_blocked)
      else if si_cancelled s then (s, Batch_throws (Runtime_error (input_error_text s)))
      else if si_not_needed s then (s, Batch_eof)
      else (case si_batch s of
              None \<Rightarrow> (notify_all (s\<lparr>si_consumer_eof := True\<rparr>), Batch_eof)
            | Some b \<Rightarrow> (s, Batch_ready b)))"

definition si_mark_consumed :: "stream_input \<Rightarrow> u64 \<Rightarrow> stream_input" where
  "si_mark_consumed s seq =
     (case si_batch s of
        None \<Rightarrow> s
      | Some b \<Rightarrow>
          if bv_sequence b \<noteq> seq then s
          else notify_all (s\<lparr>si_acknowledged_batches := si_acknowledged_batches s + 1,
                              si_acknowledged_rows := si_acknowledged_rows s + bv_rows b,
                              si_acknowledged_bytes := si_acknowledged_bytes s + bv_payload_bytes b,
                              si_batch := None\<rparr>))"

definition si_mark_not_needed :: "stream_input \<Rightarrow> stream_input" where
  "si_mark_not_needed s =
     notify_all (if \<not> si_cancelled s \<and> \<not> si_consumer_eof s then s\<lparr>si_not_needed := True, si_batch := None\<rparr> else s)"

definition si_cancel :: "stream_input \<Rightarrow> string \<Rightarrow> stream_input" where
  "si_cancel s err =
     notify_all (if \<not> si_cancelled s \<and> \<not> si_not_needed s
                 then s\<lparr>si_cancelled := True, si_error := err, si_batch := None\<rparr> else s)"

section \<open>The scan\<close>

text \<open>\<^verbatim>\<open>scan_stream\<close> keeps the batch it drains and an offset into it.  One call first retires a batch
  that is fully emitted, then asks for the next one, then emits at most \<open>vsize\<close> rows
  (DuckDB's \<^verbatim>\<open>STANDARD_VECTOR_SIZE\<close>).  The result is the range of rows of the chunk and one filled
  vector per column; when \<^verbatim>\<open>fill_column\<close> throws, the offset has not moved.\<close>

record scan_state =
  sc_batch :: "native_batch_view option"
  sc_offset :: nat

datatype scan_result =
    Scan_blocked
  | Scan_end
  | Scan_throws exn
  | Scan_chunk native_batch_view nat nat "duck_vector list"

definition scan_retire :: "stream_input \<Rightarrow> scan_state \<Rightarrow> stream_input \<times> scan_state" where
  "scan_retire s st =
     (case sc_batch st of
        Some b \<Rightarrow> if sc_offset st = unat (bv_rows b)
                  then (si_mark_consumed s (bv_sequence b), \<lparr>sc_batch = None, sc_offset = 0\<rparr>)
                  else (s, st)
      | None \<Rightarrow> (s, st))"

definition scan_fill ::
  "tae_abi \<Rightarrow> (native_column_view \<Rightarrow> nat \<Rightarrow> bool) \<Rightarrow> native_batch_view \<Rightarrow> nat \<Rightarrow> nat \<Rightarrow> duck_vector list res" where
  "scan_fill abi is_null b count off = mapR (\<lambda>c. fill_column abi is_null c count off) (bv_columns b)"

definition scan_emit ::
  "tae_abi \<Rightarrow> (native_column_view \<Rightarrow> nat \<Rightarrow> bool) \<Rightarrow> nat \<Rightarrow> native_batch_view \<Rightarrow> nat \<Rightarrow> scan_state \<times> scan_result" where
  "scan_emit abi is_null vsize b off =
     (let count = min vsize (unat (bv_rows b) - off) in
      case scan_fill abi is_null b count off of
        Inl e \<Rightarrow> (\<lparr>sc_batch = Some b, sc_offset = off\<rparr>, Scan_throws e)
      | Inr vs \<Rightarrow> (\<lparr>sc_batch = Some b, sc_offset = off + count\<rparr>, Scan_chunk b off count vs))"

definition scan_stream ::
  "tae_abi \<Rightarrow> (native_column_view \<Rightarrow> nat \<Rightarrow> bool) \<Rightarrow> nat \<Rightarrow> nat \<Rightarrow> stream_input \<Rightarrow> scan_state \<Rightarrow>
   stream_input \<times> scan_state \<times> scan_result" where
  "scan_stream abi is_null vsize w s st =
     (case scan_retire s st of (s1, st1) \<Rightarrow>
        (case sc_batch st1 of
           Some b \<Rightarrow> (s1, scan_emit abi is_null vsize b (sc_offset st1))
         | None \<Rightarrow>
             (case si_next_batch w s1 of (s2, r) \<Rightarrow>
                (case r of
                   Batch_blocked \<Rightarrow> (s2, st1, Scan_blocked)
                 | Batch_eof \<Rightarrow> (s2, st1, Scan_end)
                 | Batch_throws e \<Rightarrow> (s2, st1, Scan_throws e)
                 | Batch_ready b \<Rightarrow> (s2, scan_emit abi is_null vsize b (sc_offset st1))))))"

section \<open>The registry of an execution's inputs\<close>

text \<open>\<^verbatim>\<open>std::unordered_map\<close> from stream reference to input; the handler counter is an atomic of its own.\<close>

record stream_input_registry =
  reg_inputs :: "bytes \<rightharpoonup> stream_input"
  reg_active_handlers :: u64

definition new_input_registry :: stream_input_registry where
  "new_input_registry = \<lparr>reg_inputs = Map.empty, reg_active_handlers = 0\<rparr>"

definition reg_size :: "stream_input_registry \<Rightarrow> nat" where
  "reg_size r = card (dom (reg_inputs r))"

definition reg_create ::
  "stream_input_registry \<Rightarrow> bytes \<Rightarrow> named_struct \<Rightarrow> stream_input_registry res" where
  "reg_create r stream_ref schema =
     bindR (stream_input_types schema) (\<lambda>_.
       if reg_size r \<ge> k_max_stream_inputs
       then Inl (Invalid_argument ''StreamRead input count exceeds the supported bound'')
       else if reg_inputs r stream_ref \<noteq> None
       then Inl (Invalid_argument ''duplicate StreamRead input identity'')
       else Inr (r\<lparr>reg_inputs := (reg_inputs r)(stream_ref \<mapsto> new_stream_input)\<rparr>))"

definition reg_find :: "stream_input_registry \<Rightarrow> bytes \<Rightarrow> stream_input option" where
  "reg_find r stream_ref = reg_inputs r stream_ref"

definition reg_mark_all_not_needed :: "stream_input_registry \<Rightarrow> stream_input_registry" where
  "reg_mark_all_not_needed r = r\<lparr>reg_inputs := \<lambda>k. map_option si_mark_not_needed (reg_inputs r k)\<rparr>"

definition reg_cancel_all :: "stream_input_registry \<Rightarrow> string \<Rightarrow> stream_input_registry" where
  "reg_cancel_all r err = r\<lparr>reg_inputs := \<lambda>k. map_option (\<lambda>s. si_cancel s err) (reg_inputs r k)\<rparr>"

definition handler_attached :: "stream_input_registry \<Rightarrow> stream_input_registry" where
  "handler_attached r = r\<lparr>reg_active_handlers := reg_active_handlers r + 1\<rparr>"

definition handler_detached :: "stream_input_registry \<Rightarrow> stream_input_registry" where
  "handler_detached r = r\<lparr>reg_active_handlers := reg_active_handlers r - 1\<rparr>"

end
