(* ===== verification/Stream_Input_Correct.thy ===== *)
theory Stream_Input_Correct
  imports Stream_Input Native_Batch_Correct Machines
begin

text \<open>
  One input with any number of upload handlers, a consumer and the controlling execution, as a step
  relation over the critical sections of \<open>Stream_Input\<close>.  Two ghost lists record which batches were
  placed in the slot and which of them were consumed.  A caller of \<^verbatim>\<open>next_batch\<close> that sleeps takes no
  step until a notification or a spurious wake-up takes it out of \<open>si_waiters\<close>.
\<close>

section \<open>The system\<close>

text \<open>A handler has not attached yet, stands between two calls, is inside a call, or is gone.\<close>

datatype upload_thread = U_new | U_attached | U_call upload_pc | U_gone

record input_system =
  sys_input :: stream_input
  sys_uploads :: "nat \<Rightarrow> upload_thread"
  sys_published :: "native_batch_view list"
  sys_consumed :: "native_batch_view list"

definition input_init :: "input_system \<Rightarrow> bool" where
  "input_init s \<longleftrightarrow>
     sys_input s = new_stream_input \<and> sys_uploads s = (\<lambda>_. U_new) \<and> sys_published s = [] \<and> sys_consumed s = []"

text \<open>The batch that a call has just placed.\<close>

definition placed :: "upload_pc \<Rightarrow> native_batch_view list" where
  "placed pc = (case pc of Wait_consumed b \<Rightarrow> [b] | _ \<Rightarrow> [])"

lemma placed_simps [simp]:
  "placed (Returned r) = []" "placed (Wait_consumed b) = [b]" "placed Wait_eof = []"
  by (simp_all add: placed_def)

text \<open>The batch that \<^verbatim>\<open>mark_consumed\<close> retires.\<close>

definition retired :: "stream_input \<Rightarrow> u64 \<Rightarrow> native_batch_view list" where
  "retired s seq = (case si_batch s of Some b \<Rightarrow> if bv_sequence b = seq then [b] else [] | None \<Rightarrow> [])"

definition call_ends :: "upload_input_ack arrow_result \<Rightarrow> bool" where
  "call_ends r = (case r of Inl _ \<Rightarrow> True | Inr ack \<Rightarrow> ack_complete ack)"

inductive input_step :: "tae_abi \<Rightarrow> named_struct \<Rightarrow> input_system \<Rightarrow> input_system \<Rightarrow> bool" for abi schema where
  attach:
    "\<lbrakk> sys_uploads s t = U_new; si_attach (sys_input s) = (i, st) \<rbrakk> \<Longrightarrow>
     input_step abi schema s
       (s\<lparr>sys_input := i, sys_uploads := (sys_uploads s)(t := if st = St_OK then U_attached else U_gone)\<rparr>)"
| publish:
    "\<lbrakk> sys_uploads s t = U_attached; si_publish abi schema (sys_input s) frame = Inr (i, pc) \<rbrakk> \<Longrightarrow>
     input_step abi schema s
       (s\<lparr>sys_input := i, sys_uploads := (sys_uploads s)(t := U_call pc),
          sys_published := sys_published s @ placed pc\<rparr>)"
| publish_throws:
    "\<lbrakk> sys_uploads s t = U_attached; si_publish abi schema (sys_input s) frame = Inl e \<rbrakk> \<Longrightarrow>
     input_step abi schema s
       (s\<lparr>sys_input := si_detach (sys_input s), sys_uploads := (sys_uploads s)(t := U_gone)\<rparr>)"
| finish:
    "\<lbrakk> sys_uploads s t = U_attached; si_finish_upload (sys_input s) = (i, pc) \<rbrakk> \<Longrightarrow>
     input_step abi schema s (s\<lparr>sys_input := i, sys_uploads := (sys_uploads s)(t := U_call pc)\<rparr>)"
| wake:
    "\<lbrakk> sys_uploads s t = U_call pc; upload_wake (sys_input s) pc = (i, pc') \<rbrakk> \<Longrightarrow>
     input_step abi schema s
       (s\<lparr>sys_input := i, sys_uploads := (sys_uploads s)(t := U_call pc'),
          sys_published := sys_published s @ (case pc of Wait_empty b \<Rightarrow> placed pc' | _ \<Rightarrow> [])\<rparr>)"
| stop:
    "sys_uploads s t = U_call pc \<Longrightarrow>
     input_step abi schema s (s\<lparr>sys_uploads := (sys_uploads s)(t := U_call (upload_stopped pc))\<rparr>)"
| continue:
    "\<lbrakk> sys_uploads s t = U_call (Returned r); \<not> call_ends r \<rbrakk> \<Longrightarrow>
     input_step abi schema s (s\<lparr>sys_uploads := (sys_uploads s)(t := U_attached)\<rparr>)"
| leave:
    "sys_uploads s t = U_attached \<or> (\<exists>r. sys_uploads s t = U_call (Returned r)) \<Longrightarrow>
     input_step abi schema s
       (s\<lparr>sys_input := si_detach (sys_input s), sys_uploads := (sys_uploads s)(t := U_gone)\<rparr>)"
| next_batch:
    "\<lbrakk> w \<notin> si_waiters (sys_input s); si_next_batch w (sys_input s) = (i, r) \<rbrakk> \<Longrightarrow>
     input_step abi schema s (s\<lparr>sys_input := i\<rparr>)"
| spurious_wake:
    "input_step abi schema s
       (s\<lparr>sys_input := (sys_input s)\<lparr>si_waiters := si_waiters (sys_input s) - {w}\<rparr>\<rparr>)"
| mark_consumed:
    "input_step abi schema s
       (s\<lparr>sys_input := si_mark_consumed (sys_input s) seq,
          sys_consumed := sys_consumed s @ retired (sys_input s) seq\<rparr>)"
| mark_not_needed:
    "input_step abi schema s (s\<lparr>sys_input := si_mark_not_needed (sys_input s)\<rparr>)"
| cancel:
    "input_step abi schema s (s\<lparr>sys_input := si_cancel (sys_input s) err\<rparr>)"

section \<open>The invariant\<close>

text \<open>The slot and the two ghost lists: published batches are the consumed ones, then at most the one
  in flight, numbered from one.  Whoever sleeps in \<^verbatim>\<open>next_batch\<close> has nothing to return with.\<close>

definition slot_inv :: "input_system \<Rightarrow> bool" where
  "slot_inv s \<longleftrightarrow>
     (let i = sys_input s; pub = sys_published s; con = sys_consumed s in
      \<not> (si_cancelled i \<and> si_not_needed i) \<and>
      (input_terminal i \<longrightarrow> si_batch i = None) \<and>
      si_acknowledged_batches i = of_nat (length con) \<and>
      si_acknowledged_rows i = sum_list (map bv_rows con) \<and>
      si_acknowledged_bytes i = sum_list (map bv_payload_bytes con) \<and>
      (\<forall>k < length pub. bv_sequence (pub ! k) = of_nat (Suc k)) \<and>
      (case si_batch i of
         Some b \<Rightarrow> pub = con @ [b]
       | None \<Rightarrow> pub = con \<or> input_terminal i \<and> (\<exists>b. pub = con @ [b])) \<and>
      (\<not> si_attached i \<longrightarrow> si_batch i = None \<and> \<not> si_producer_eof i) \<and>
      (si_waiters i \<noteq> {} \<longrightarrow> si_batch i = None \<and> \<not> si_producer_eof i \<and> \<not> input_terminal i) \<and>
      (si_consumer_eof i \<longrightarrow> si_producer_eof i \<and> pub = con \<and> si_batch i = None \<and> \<not> si_not_needed i))"

definition upload_active :: "upload_thread \<Rightarrow> bool" where
  "upload_active u = (case u of U_new \<Rightarrow> False | U_gone \<Rightarrow> False | _ \<Rightarrow> True)"

text \<open>An acknowledgement is exact.\<close>

definition ack_exact :: "input_system \<Rightarrow> upload_input_ack \<Rightarrow> bool" where
  "ack_exact s ack \<longleftrightarrow>
     (ack_not_needed ack \<longrightarrow> ack_complete ack \<and> si_not_needed (sys_input s)) \<and>
     (\<not> ack_not_needed ack \<longrightarrow>
        sys_published s = sys_consumed s \<and>
        ack_batches ack = of_nat (length (sys_consumed s)) \<and>
        ack_rows ack = sum_list (map bv_rows (sys_consumed s)) \<and>
        ack_bytes ack = sum_list (map bv_payload_bytes (sys_consumed s))) \<and>
     (ack_complete ack \<and> \<not> ack_not_needed ack \<longrightarrow> si_consumer_eof (sys_input s))"

text \<open>What the state of a handler says of the slot.\<close>

definition thread_ok :: "input_system \<Rightarrow> upload_thread \<Rightarrow> bool" where
  "thread_ok s u =
     (let i = sys_input s in
      case u of
        U_new \<Rightarrow> True
      | U_gone \<Rightarrow> True
      | U_attached \<Rightarrow> si_attached i \<and> si_batch i = None \<and> \<not> si_producer_eof i
      | U_call pc \<Rightarrow> si_attached i \<and>
          (case pc of
             Wait_empty b \<Rightarrow> False
           | Wait_consumed b \<Rightarrow> \<not> si_producer_eof i \<and> sys_published s \<noteq> [] \<and> last (sys_published s) = b
           | Wait_eof \<Rightarrow> si_producer_eof i \<and> si_batch i = None
           | Returned (Inl _) \<Rightarrow> True
           | Returned (Inr ack) \<Rightarrow> si_batch i = None \<and> ack_exact s ack \<and>
               (\<not> ack_complete ack \<longrightarrow> \<not> si_producer_eof i)))"

definition input_inv :: "input_system \<Rightarrow> bool" where
  "input_inv s \<longleftrightarrow>
     slot_inv s \<and> (\<forall>t. thread_ok s (sys_uploads s t)) \<and>
     (\<forall>t u. upload_active (sys_uploads s t) \<and> upload_active (sys_uploads s u) \<longrightarrow> t = u)"

section \<open>Every step keeps the invariant\<close>

text \<open>The predicates on the slot do not look at the handlers.\<close>

lemma uploads_irrelevant [simp]:
  "slot_inv (s\<lparr>sys_uploads := f\<rparr>) = slot_inv s" "thread_ok (s\<lparr>sys_uploads := f\<rparr>) u = thread_ok s u"
  by (auto simp: slot_inv_def thread_ok_def ack_exact_def Let_def
      split: upload_thread.splits upload_pc.splits sum.splits)

lemma slot_inv_detach: "slot_inv s \<Longrightarrow> slot_inv (s\<lparr>sys_input := si_detach (sys_input s)\<rparr>)"
  by (auto simp: slot_inv_def si_detach_def input_terminal_def Let_def split: option.splits)

lemma sys_input_same [simp]: "s\<lparr>sys_input := sys_input s\<rparr> = s"
  by (cases s) simp

lemmas input_op_defs = si_attach_def si_cancel_def si_mark_not_needed_def si_mark_consumed_def
  si_next_batch_def si_detach_def si_finish_upload_def finish_wait_def publish_consumed_def
  publish_place_def publish_decoded_def ack_of_def input_terminal_def

lemma slot_inv_init: "input_init s \<Longrightarrow> input_inv s"
  by (simp add: input_init_def input_inv_def slot_inv_def new_stream_input_def thread_ok_def
      upload_active_def)

text \<open>Steps of the consumer and of the controlling execution: no handler moves.\<close>

lemma slot_inv_next_batch:
  assumes "si_next_batch w (sys_input s) = (i, r)" and "slot_inv s"
  shows "slot_inv (s\<lparr>sys_input := i\<rparr>)"
  using assms by (auto simp: slot_inv_def input_op_defs Let_def split: if_splits option.splits)

lemma slot_inv_mark_consumed:
  assumes "slot_inv s"
  shows "slot_inv (s\<lparr>sys_input := si_mark_consumed (sys_input s) seq,
    sys_consumed := sys_consumed s @ retired (sys_input s) seq\<rparr>)"
  using assms
  by (auto simp: slot_inv_def input_op_defs retired_def Let_def split: option.splits)

lemma slot_inv_mark_not_needed:
  "slot_inv s \<Longrightarrow> slot_inv (s\<lparr>sys_input := si_mark_not_needed (sys_input s)\<rparr>)"
  by (auto simp: slot_inv_def input_op_defs Let_def split: option.splits)

lemma slot_inv_cancel:
  "slot_inv s \<Longrightarrow> slot_inv (s\<lparr>sys_input := si_cancel (sys_input s) err\<rparr>)"
  by (auto simp: slot_inv_def input_op_defs Let_def split: option.splits)

lemma slot_inv_spurious:
  "slot_inv s \<Longrightarrow> slot_inv (s\<lparr>sys_input := (sys_input s)\<lparr>si_waiters := si_waiters (sys_input s) - {w}\<rparr>\<rparr>)"
  by (auto simp: slot_inv_def input_terminal_def Let_def split: option.splits)

lemma thread_ok_spurious [simp]:
  "thread_ok (s\<lparr>sys_input := (sys_input s)\<lparr>si_waiters := W\<rparr>\<rparr>) u = thread_ok s u"
  by (auto simp: thread_ok_def ack_exact_def Let_def split: upload_thread.splits upload_pc.splits sum.splits)

lemma thread_ok_next_batch:
  assumes "si_next_batch w (sys_input s) = (i, r)" and "slot_inv s" and "thread_ok s u"
  shows "thread_ok (s\<lparr>sys_input := i\<rparr>) u"
  using assms
  by (auto simp: thread_ok_def slot_inv_def ack_exact_def input_op_defs Let_def
      split: upload_thread.splits upload_pc.splits sum.splits if_splits option.splits)

lemma thread_ok_mark_consumed:
  assumes "slot_inv s" and "thread_ok s u"
  shows "thread_ok (s\<lparr>sys_input := si_mark_consumed (sys_input s) seq,
    sys_consumed := sys_consumed s @ retired (sys_input s) seq\<rparr>) u"
  using assms
  by (auto simp: thread_ok_def slot_inv_def ack_exact_def input_op_defs retired_def Let_def
      split: upload_thread.splits upload_pc.splits sum.splits option.splits)

lemma thread_ok_mark_not_needed:
  assumes "slot_inv s" and "thread_ok s u"
  shows "thread_ok (s\<lparr>sys_input := si_mark_not_needed (sys_input s)\<rparr>) u"
  using assms
  by (auto simp: thread_ok_def slot_inv_def ack_exact_def input_op_defs Let_def
      split: upload_thread.splits upload_pc.splits sum.splits)

lemma thread_ok_cancel:
  assumes "slot_inv s" and "thread_ok s u"
  shows "thread_ok (s\<lparr>sys_input := si_cancel (sys_input s) err\<rparr>) u"
  using assms
  by (auto simp: thread_ok_def slot_inv_def ack_exact_def input_op_defs Let_def
      split: upload_thread.splits upload_pc.splits sum.splits)

text \<open>Steps of a handler: the other handlers are inactive, so only this one has to be looked at.\<close>

lemma thread_ok_inactive [simp]: "\<not> upload_active u \<Longrightarrow> thread_ok s u"
  by (auto simp: upload_active_def thread_ok_def Let_def split: upload_thread.splits)

lemma input_inv_handler:
  assumes "input_inv s" and "upload_active (sys_uploads s t) \<or> \<not> si_attached (sys_input s) \<or> \<not> upload_active u"
    and "slot_inv s'" and "thread_ok s' u" and "sys_uploads s' = (sys_uploads s)(t := u)"
    and "\<And>v. v \<noteq> t \<Longrightarrow> upload_active (sys_uploads s v) \<Longrightarrow> thread_ok s' (sys_uploads s v)"
  shows "input_inv s'"
proof -
  have att: "si_attached (sys_input s)" if "upload_active (sys_uploads s v)" for v
    using assms(1) that
    by (auto simp: input_inv_def thread_ok_def upload_active_def Let_def split: upload_thread.splits dest!: spec [of _ v])
  have uniq: "v = w" if "upload_active (sys_uploads s v)" "upload_active (sys_uploads s w)" for v w
    using assms(1) that by (auto simp: input_inv_def)
  have "thread_ok s' (sys_uploads s' v)" for v
    using assms(4-6) by (cases "upload_active (sys_uploads s v)") auto
  moreover have "v = w" if "upload_active (sys_uploads s' v)" "upload_active (sys_uploads s' w)" for v w
    using that assms(2,5) att uniq by (auto split: if_splits)
  ultimately show ?thesis using assms(3) by (simp add: input_inv_def)
qed

lemma input_inv_active:
  assumes "input_inv s" and "upload_active (sys_uploads s t)"
    and "slot_inv s'" and "thread_ok s' u" and "sys_uploads s' = (sys_uploads s)(t := u)"
  shows "input_inv s'"
  using assms(1) _ assms(3-5)
  by (rule input_inv_handler) (use assms(1,2) in \<open>auto simp: input_inv_def\<close>)

lemma input_inv_attach:
  assumes inv: "input_inv s" and new: "sys_uploads s t = U_new" and op: "si_attach (sys_input s) = (i, st)"
  shows "input_inv (s\<lparr>sys_input := i,
    sys_uploads := (sys_uploads s)(t := if st = St_OK then U_attached else U_gone)\<rparr>)"
proof (cases "st = St_OK")
  case True
  then have no: "\<not> si_attached (sys_input s)"
    using op by (auto simp: si_attach_def terminal_status_locked_def split: if_splits)
  then have idle: "\<not> upload_active (sys_uploads s v)" for v
    using inv by (auto simp: input_inv_def thread_ok_def upload_active_def Let_def
        split: upload_thread.splits dest!: spec [of _ v])
  have i: "i = (sys_input s)\<lparr>si_attached := True, si_detached := False\<rparr>"
    using op True by (auto simp: si_attach_def terminal_status_locked_def split: if_splits)
  have "slot_inv s" using inv by (simp add: input_inv_def)
  then have slot: "slot_inv (s\<lparr>sys_input := i\<rparr>)" and ok: "thread_ok (s\<lparr>sys_input := i\<rparr>) U_attached"
    using no by (auto simp: i slot_inv_def input_terminal_def thread_ok_def Let_def)
  show ?thesis
    by (rule input_inv_handler [OF inv, where t = t and u = "if st = St_OK then U_attached else U_gone"])
      (use no slot ok True idle in simp_all)
next
  case False
  then have i: "i = sys_input s" using op by (auto simp: si_attach_def split: if_splits)
  show ?thesis
    by (rule input_inv_handler [OF inv, where t = t and u = "if st = St_OK then U_attached else U_gone"])
      (use inv False i in \<open>auto simp: input_inv_def upload_active_def\<close>)
qed

lemma publish_decoded_cases:
  assumes "publish_decoded i b = (i', pc)" and "si_batch i = None"
  obtains (fail) e where "pc = Returned (Inl e)" and "i' = i"
  | (unneeded) "pc = Returned (Inr (ack_of i True True))" and "i' = i" and "si_not_needed i"
  | (put) "pc = Wait_consumed b" and "i' = i\<lparr>si_batch := Some b, si_waiters := {}\<rparr>"
      and "bv_sequence b = si_acknowledged_batches i + 1" and "\<not> si_cancelled i" and "\<not> si_not_needed i"
      and "\<not> si_producer_eof i"
proof -
  have "(\<exists>e. pc = Returned (Inl e) \<and> i' = i) \<or>
    (pc = Returned (Inr (ack_of i True True)) \<and> i' = i \<and> si_not_needed i) \<or>
    (pc = Wait_consumed b \<and> i' = i\<lparr>si_batch := Some b, si_waiters := {}\<rparr> \<and> bv_sequence b = si_acknowledged_batches i + 1 \<and>
     \<not> si_cancelled i \<and> \<not> si_not_needed i \<and> \<not> si_producer_eof i)"
    using assms
    by (simp add: publish_decoded_def publish_place_def publish_consumed_def Let_def split: if_split_asm) auto
  then show thesis using fail unneeded put by blast
qed

lemma input_inv_publish:
  assumes inv: "input_inv s" and att: "sys_uploads s t = U_attached"
    and op: "si_publish abi schema (sys_input s) frame = Inr (i, pc)"
  shows "input_inv (s\<lparr>sys_input := i, sys_uploads := (sys_uploads s)(t := U_call pc),
    sys_published := sys_published s @ placed pc\<rparr>)" (is "input_inv ?s'")
proof -
  have slot: "slot_inv s" and ok: "thread_ok s U_attached"
    using inv att by (auto simp: input_inv_def dest!: spec [of _ t])
  then have empty: "si_batch (sys_input s) = None" and a: "si_attached (sys_input s)"
    and eof: "\<not> si_producer_eof (sys_input s)"
    by (simp_all add: thread_ok_def Let_def)
  have ceof: "\<not> si_consumer_eof (sys_input s)" using slot eof by (auto simp: slot_inv_def Let_def)
  have "slot_inv ?s' \<and> thread_ok ?s' (U_call pc)"
  proof (cases frame)
    case None
    then show ?thesis
      using op slot a empty by (auto simp: si_publish_def slot_inv_def thread_ok_def Let_def)
  next
    case (Some bs)
    with op obtain b where "publish_decoded (sys_input s) b = (i, pc)" by (auto simp: si_publish_def)
    then show ?thesis
      using empty
    proof (cases rule: publish_decoded_cases)
      case (fail e)
      then show ?thesis using slot a empty by (simp add: slot_inv_def thread_ok_def Let_def)
    next
      case unneeded
      then show ?thesis
        using slot a empty eof by (simp add: slot_inv_def thread_ok_def ack_exact_def ack_of_def Let_def)
    next
      case put
      have pub: "sys_published s = sys_consumed s"
        using slot put empty by (auto simp: slot_inv_def input_terminal_def Let_def)
      then have "bv_sequence b = of_nat (Suc (length (sys_published s)))"
        using slot put by (simp add: slot_inv_def Let_def add.commute)
      then show ?thesis
        using slot put a eof ceof pub
        by (auto simp: slot_inv_def thread_ok_def input_terminal_def Let_def nth_append less_Suc_eq)
    qed
  qed
  then show ?thesis using inv att by (intro input_inv_active [OF inv, of t]) (auto simp: upload_active_def)
qed

lemma input_inv_finish:
  assumes inv: "input_inv s" and att: "sys_uploads s t = U_attached"
    and op: "si_finish_upload (sys_input s) = (i, pc)"
  shows "input_inv (s\<lparr>sys_input := i, sys_uploads := (sys_uploads s)(t := U_call pc)\<rparr>)" (is "input_inv ?s'")
proof -
  have slot: "slot_inv s" and ok: "thread_ok s U_attached"
    using inv att by (auto simp: input_inv_def dest!: spec [of _ t])
  then have "slot_inv ?s'" and "thread_ok ?s' (U_call pc)"
    using op by (auto simp: slot_inv_def thread_ok_def ack_exact_def input_op_defs Let_def split: if_splits)
  then show ?thesis using inv att by (intro input_inv_active [OF inv, of t]) (auto simp: upload_active_def)
qed

lemma input_inv_wake:
  assumes inv: "input_inv s" and call: "sys_uploads s t = U_call pc"
    and op: "upload_wake (sys_input s) pc = (i, pc')"
  shows "input_inv (s\<lparr>sys_input := i, sys_uploads := (sys_uploads s)(t := U_call pc'),
    sys_published := sys_published s @ (case pc of Wait_empty b \<Rightarrow> placed pc' | _ \<Rightarrow> [])\<rparr>)" (is "input_inv ?s'")
proof -
  have slot: "slot_inv s" and ok: "thread_ok s (U_call pc)"
    using inv call by (auto simp: input_inv_def dest!: spec [of _ t])
  then have i: "i = sys_input s" using op by (auto simp: upload_wake_def thread_ok_def split: upload_pc.splits)
  have pub: "(case pc of Wait_empty b \<Rightarrow> placed pc' | _ \<Rightarrow> []) = []"
    using ok by (auto simp: thread_ok_def Let_def split: upload_pc.splits)
  have same: "?s' = s\<lparr>sys_uploads := (sys_uploads s)(t := U_call pc')\<rparr>"
    unfolding pub i by (cases s) simp
  have "thread_ok s (U_call pc')"
  proof (cases pc)
    case (Returned r)
    then show ?thesis using op ok by (simp add: upload_wake_def)
  qed (use op ok slot in \<open>auto simp: upload_wake_def slot_inv_def thread_ok_def ack_exact_def input_op_defs Let_def
        split: if_splits option.splits\<close>)
  then have "slot_inv ?s'" and "thread_ok ?s' (U_call pc')" using slot by (simp_all only: same uploads_irrelevant)
  then show ?thesis using inv call by (intro input_inv_active [OF inv, of t]) (auto simp: upload_active_def)
qed

lemma input_inv_leave:
  assumes inv: "input_inv s" and act: "upload_active (sys_uploads s t)"
  shows "input_inv (s\<lparr>sys_input := si_detach (sys_input s), sys_uploads := (sys_uploads s)(t := U_gone)\<rparr>)"
  by (rule input_inv_active [OF inv act])
    (use inv in \<open>auto simp: input_inv_def upload_active_def intro: slot_inv_detach\<close>)

lemma input_step_inv:
  assumes "input_inv s" and "input_step abi schema s s'"
  shows "input_inv s'"
  using assms(2,1)
proof (induction rule: input_step.induct)
  case (attach s t i st)
  then show ?case by (intro input_inv_attach)
next
  case (publish s t frame i pc)
  then show ?case by (intro input_inv_publish)
next
  case (publish_throws s t frame e)
  then show ?case by (intro input_inv_leave) (auto simp: upload_active_def)
next
  case (finish s t i pc)
  then show ?case by (intro input_inv_finish)
next
  case (wake s t pc i pc')
  then show ?case by (intro input_inv_wake)
next
  case (stop s t pc)
  then have "slot_inv s" and "thread_ok s (U_call pc)"
    by (auto simp: input_inv_def dest!: spec [of _ t])
  then have "slot_inv (s\<lparr>sys_uploads := (sys_uploads s)(t := U_call (upload_stopped pc))\<rparr>)"
    and "thread_ok (s\<lparr>sys_uploads := (sys_uploads s)(t := U_call (upload_stopped pc))\<rparr>) (U_call (upload_stopped pc))"
    by (auto simp: slot_inv_def thread_ok_def ack_exact_def upload_stopped_def Let_def
        split: upload_pc.splits sum.splits)
  then show ?case
    using stop by (intro input_inv_active [OF stop(2), of t]) (auto simp: upload_active_def)
next
  case (continue s t r)
  then have "slot_inv s" and "thread_ok s (U_call (Returned r))"
    by (auto simp: input_inv_def dest!: spec [of _ t])
  with continue(2) have "slot_inv (s\<lparr>sys_uploads := (sys_uploads s)(t := U_attached)\<rparr>)"
    and "thread_ok (s\<lparr>sys_uploads := (sys_uploads s)(t := U_attached)\<rparr>) U_attached"
    by (auto simp: slot_inv_def thread_ok_def call_ends_def Let_def split: sum.splits)
  then show ?case
    using continue by (intro input_inv_active [OF continue(3), of t]) (auto simp: upload_active_def)
next
  case (leave s t)
  then show ?case by (intro input_inv_leave) (auto simp: upload_active_def)
next
  case (next_batch w s i r)
  then show ?case by (auto simp: input_inv_def intro: slot_inv_next_batch thread_ok_next_batch)
next
  case (spurious_wake s w)
  then show ?case by (auto simp: input_inv_def intro: slot_inv_spurious)
next
  case (mark_consumed s seq)
  then show ?case by (auto simp: input_inv_def intro: slot_inv_mark_consumed thread_ok_mark_consumed)
next
  case (mark_not_needed s)
  then show ?case by (auto simp: input_inv_def intro: slot_inv_mark_not_needed thread_ok_mark_not_needed)
next
  case (cancel s err)
  then show ?case by (auto simp: input_inv_def intro: slot_inv_cancel thread_ok_cancel)
qed

section \<open>Contracts\<close>

interpretation input_machine: system_invariant input_init "input_step abi schema" input_inv
  for abi schema
  by unfold_locales (auto intro: slot_inv_init input_step_inv)

text \<open>How an input ended: cancelled with an error text, or not needed any more.\<close>

definition input_outcome :: "input_system \<Rightarrow> (string + unit) option" where
  "input_outcome s =
     (if si_cancelled (sys_input s) then Some (Inl (si_error (sys_input s)))
      else if si_not_needed (sys_input s) then Some (Inr ()) else None)"

lemma upload_wake_outcome:
  "upload_wake i pc = (i', pc') \<Longrightarrow>
     si_cancelled i' = si_cancelled i \<and> si_error i' = si_error i \<and> si_not_needed i' = si_not_needed i"
  by (auto simp: upload_wake_def publish_place_def Let_def split: upload_pc.splits if_splits)

lemma si_publish_outcome:
  "si_publish abi schema i frame = Inr (i', pc) \<Longrightarrow>
     si_cancelled i' = si_cancelled i \<and> si_error i' = si_error i \<and> si_not_needed i' = si_not_needed i"
  by (auto simp: si_publish_def publish_decoded_def publish_place_def Let_def split: option.splits if_splits)

lemma input_outcome_kept:
  assumes "input_step abi schema s t" and "input_outcome s = Some v"
  shows "input_outcome t = Some v"
  using assms
proof (induction rule: input_step.induct)
  case (publish s t frame i pc)
  then show ?case by (auto simp: input_outcome_def dest!: si_publish_outcome split: if_splits)
next
  case (wake s t pc i pc')
  then show ?case by (auto simp: input_outcome_def dest!: upload_wake_outcome split: if_splits)
qed (auto simp: input_outcome_def si_attach_def si_finish_upload_def si_next_batch_def si_mark_consumed_def
    si_mark_not_needed_def si_cancel_def si_detach_def Let_def split: if_splits option.splits)

interpretation input_latch: latch input_init "input_step abi schema" input_inv input_outcome
  for abi schema
  by unfold_locales (rule input_outcome_kept)

section \<open>A concrete run\<close>

text \<open>Handler 0 attaches and publishes a batch of two booleans; the scan consumes it; the
  handler is woken and gets its acknowledgement; then the execution cancels the input.\<close>

definition demo_bool_schema :: named_struct where
  "demo_bool_schema = \<lparr>ns_names = [[97]], ns_has_struct = True, ns_types = [KBool]\<rparr>"

definition demo_bool_vector :: bytes where
  "demo_bool_vector =
     [0, 10, 0, 0, 0, 1, 0, 0, 0, 0, 0, 0, 0, 0, 0, 0, 0, 2, 0, 0, 0, 2, 0, 0, 0, 1, 0, 0, 0, 0, 0, 0, 0, 0, 0, 0]"

definition demo_frame :: bytes where
  "demo_frame =
     [0x4d, 0x4f, 0x42, 0x31, 1, 0, 0, 0, 1, 0, 0, 0, 0, 0, 0, 0, 68, 0, 0, 0, 0, 0, 0, 0,
      2, 0, 0, 0, 0, 0, 0, 0, 1, 0, 0, 0, 36, 0, 0, 0] @ demo_bool_vector @ replicate 16 0"

definition demo_batch :: native_batch_view where
  "demo_batch = projr (publish_decode design_abi demo_bool_schema demo_frame)"

lemma demo_decode_ok: "is_ok (publish_decode design_abi demo_bool_schema demo_frame)"
  by code_simp

lemma demo_batch_decodes: "publish_decode design_abi demo_bool_schema demo_frame = Inr demo_batch"
proof -
  have "is_ok (publish_decode design_abi demo_bool_schema demo_frame)" by (rule demo_decode_ok)
  then obtain b where "publish_decode design_abi demo_bool_schema demo_frame = Inr b" unfolding is_ok_iff by blast
  then show ?thesis unfolding demo_batch_def by (metis sum.sel(2))
qed

lemma demo_batch_fields: "bv_sequence demo_batch = 1" "bv_rows demo_batch = 2"
  by code_simp+

definition demo_attached :: input_system where
  "demo_attached =
     \<lparr>sys_input = new_stream_input\<lparr>si_attached := True\<rparr>, sys_uploads = (\<lambda>_. U_new)(0 := U_attached),
      sys_published = [], sys_consumed = []\<rparr>"

definition demo_published :: input_system where
  "demo_published = demo_attached
     \<lparr>sys_input := new_stream_input\<lparr>si_attached := True, si_batch := Some demo_batch\<rparr>,
      sys_uploads := (\<lambda>_. U_new)(0 := U_call (Wait_consumed demo_batch)), sys_published := [demo_batch]\<rparr>"

definition demo_consumed :: input_system where
  "demo_consumed = demo_published
     \<lparr>sys_input := si_mark_consumed (sys_input demo_published) 1, sys_consumed := [demo_batch]\<rparr>"

definition demo_ack :: upload_input_ack where
  "demo_ack = ack_of (sys_input demo_consumed) False False"

definition demo_returned :: input_system where
  "demo_returned = demo_consumed\<lparr>sys_uploads := (\<lambda>_. U_new)(0 := U_call (Returned (Inr demo_ack)))\<rparr>"

definition demo_cancelled :: input_system where
  "demo_cancelled = demo_returned\<lparr>sys_input := si_cancel (sys_input demo_returned) ''stop''\<rparr>"

abbreviation demo_step :: "input_system \<Rightarrow> input_system \<Rightarrow> bool" where
  "demo_step \<equiv> input_step design_abi demo_bool_schema"

lemma demo_attached_reachable: "reachable input_init demo_step demo_attached"
proof -
  let ?s = "\<lparr>sys_input = new_stream_input, sys_uploads = (\<lambda>_. U_new), sys_published = [], sys_consumed = []\<rparr>"
  have "demo_step ?s demo_attached"
    using input_step.attach [of ?s 0 "new_stream_input\<lparr>si_attached := True\<rparr>" St_OK]
    by (simp add: demo_attached_def si_attach_def new_stream_input_def)
  moreover have "reachable input_init demo_step ?s" by (rule reachable.initially) (simp add: input_init_def)
  ultimately show ?thesis by (blast intro: reachable.stepwise)
qed

lemma demo_published_reachable: "reachable input_init demo_step demo_published"
proof -
  have "si_publish design_abi demo_bool_schema (sys_input demo_attached) (Some demo_frame) =
      Inr (sys_input demo_published, Wait_consumed demo_batch)"
    by (simp add: si_publish_def demo_batch_decodes publish_decoded_def publish_place_def publish_consumed_def
        demo_attached_def demo_published_def new_stream_input_def demo_batch_fields Let_def)
  from input_step.publish [OF _ this, of 0] have "demo_step demo_attached demo_published"
    by (simp add: demo_attached_def demo_published_def)
  then show ?thesis using demo_attached_reachable by (blast intro: reachable.stepwise)
qed

lemma demo_consumed_reachable: "reachable input_init demo_step demo_consumed"
proof -
  have "demo_step demo_published demo_consumed"
    using input_step.mark_consumed [of design_abi demo_bool_schema demo_published 1]
    by (simp add: demo_consumed_def demo_published_def demo_attached_def retired_def demo_batch_fields)
  then show ?thesis using demo_published_reachable by (blast intro: reachable.stepwise)
qed

lemma demo_returned_reachable: "reachable input_init demo_step demo_returned"
proof -
  have "upload_wake (sys_input demo_consumed) (Wait_consumed demo_batch) =
      (sys_input demo_consumed, Returned (Inr demo_ack))"
    by (simp add: upload_wake_def publish_consumed_def demo_ack_def demo_consumed_def demo_published_def
        si_mark_consumed_def new_stream_input_def demo_batch_fields)
  from input_step.wake [OF _ this, of 0] have "demo_step demo_consumed demo_returned"
    by (simp add: demo_returned_def demo_consumed_def demo_published_def demo_attached_def)
  then show ?thesis using demo_consumed_reachable by (blast intro: reachable.stepwise)
qed

lemma demo_cancelled_step: "demo_step demo_returned demo_cancelled"
  unfolding demo_cancelled_def by (rule input_step.cancel)

lemma demo_cancelled_reachable: "reachable input_init demo_step demo_cancelled"
  using demo_returned_reachable demo_cancelled_step by (rule reachable.stepwise)

text \<open>Another run: a scan falls asleep in \<^verbatim>\<open>next_batch\<close> before the first batch, then the input is cancelled.\<close>

definition demo_asleep :: input_system where
  "demo_asleep = demo_attached\<lparr>sys_input := (sys_input demo_attached)\<lparr>si_waiters := {7}\<rparr>\<rparr>"

definition demo_asleep_cancelled :: input_system where
  "demo_asleep_cancelled = demo_asleep\<lparr>sys_input := si_cancel (sys_input demo_asleep) ''stop''\<rparr>"

lemma demo_asleep_reachable: "reachable input_init demo_step demo_asleep"
proof -
  have "demo_step demo_attached demo_asleep"
    using input_step.next_batch [of 7 demo_attached "(sys_input demo_attached)\<lparr>si_waiters := {7}\<rparr>" Batch_blocked]
    by (simp add: demo_asleep_def demo_attached_def si_next_batch_def new_stream_input_def)
  then show ?thesis using demo_attached_reachable by (blast intro: reachable.stepwise)
qed

lemma demo_asleep_cancelled_reachable: "reachable input_init demo_step demo_asleep_cancelled"
  using demo_asleep_reachable by (rule reachable.stepwise) (unfold demo_asleep_cancelled_def, rule input_step.cancel)

section \<open>Calls on a terminal input\<close>

lemma slot_inv_awake: "slot_inv s \<Longrightarrow> input_terminal (sys_input s) \<Longrightarrow> si_waiters (sys_input s) = {}"
  by (auto simp: slot_inv_def Let_def)

lemma terminal_next_batch:
  "input_terminal i \<Longrightarrow> snd (si_next_batch w i) =
     (if si_cancelled i then Batch_throws (Runtime_error (input_error_text i)) else Batch_eof)"
  by (auto simp: si_next_batch_def input_terminal_def)

lemma terminal_publish_place: "input_terminal i \<Longrightarrow> \<exists>r. snd (publish_place i b) = Returned r"
  by (auto simp: publish_place_def input_terminal_def)

lemma terminal_wake:
  assumes "input_terminal i"
  shows "\<exists>r. snd (upload_wake i pc) = Returned r"
  using assms terminal_publish_place [OF assms]
  by (cases pc) (auto simp: upload_wake_def publish_consumed_def finish_wait_def input_terminal_def)

lemma cancelled_wake:
  "si_cancelled i \<and> (\<forall>r. pc \<noteq> Returned r) \<Longrightarrow> snd (upload_wake i pc) = Returned (Inl (terminal_status_locked i))"
  by (cases pc) (auto simp: upload_wake_def publish_place_def publish_consumed_def finish_wait_def)

lemma terminal_publish:
  assumes "input_terminal i" and "si_publish abi schema i frame = Inr (i', pc)"
  shows "\<exists>r. pc = Returned r"
  using assms(2) terminal_publish_place [OF assms(1)]
  by (auto simp: si_publish_def publish_decoded_def split: option.splits if_splits) (metis snd_conv)

lemma terminal_finish: "input_terminal i \<Longrightarrow> \<exists>r. snd (si_finish_upload i) = Returned r"
  by (auto simp: si_finish_upload_def finish_wait_def input_terminal_def Let_def)

section \<open>Properties of the hand-over\<close>

text \<open>
  C1: In every interleaving of upload handlers, scan and cancellation, the batches a stream input
  has consumed are a prefix of the batches placed in its slot, at most one placed batch is not
  consumed, it is the one in the slot, and while the slot is empty every placed batch has been
  consumed unless the input was cancelled or marked not needed; placed batches are numbered 1, 2,
  3 and so on, and the three acknowledgement counters are the count and the 64-bit sums over the
  consumed batches.
\<close>

theorem stream_exactly_once:
  assumes "reachable input_init (input_step abi schema) s"
  shows "(\<exists>rest. sys_published s = sys_consumed s @ rest \<and> length rest \<le> 1 \<and>
      (\<forall>b. si_batch (sys_input s) = Some b \<longrightarrow> rest = [b]) \<and>
      (si_batch (sys_input s) = None \<and> \<not> si_cancelled (sys_input s) \<and> \<not> si_not_needed (sys_input s) \<longrightarrow> rest = [])) \<and>
    (\<forall>k < length (sys_published s). bv_sequence (sys_published s ! k) = of_nat (Suc k)) \<and>
    si_acknowledged_batches (sys_input s) = of_nat (length (sys_consumed s)) \<and>
    si_acknowledged_rows (sys_input s) = sum_list (map bv_rows (sys_consumed s)) \<and>
    si_acknowledged_bytes (sys_input s) = sum_list (map bv_payload_bytes (sys_consumed s))"
proof -
  have slot: "slot_inv s" using input_machine.reachable_inv [OF assms] by (simp add: input_inv_def)
  then have "\<exists>rest. sys_published s = sys_consumed s @ rest \<and> length rest \<le> 1 \<and>
      (\<forall>b. si_batch (sys_input s) = Some b \<longrightarrow> rest = [b]) \<and>
      (si_batch (sys_input s) = None \<and> \<not> si_cancelled (sys_input s) \<and> \<not> si_not_needed (sys_input s) \<longrightarrow> rest = [])"
    by (cases "si_batch (sys_input s)") (auto simp: slot_inv_def input_terminal_def Let_def)
  with slot show ?thesis by (simp add: slot_inv_def Let_def)
qed

theorem stream_exactly_once_witness:
  "sys_published demo_published = sys_consumed demo_published @ [demo_batch] \<and>
   sys_published demo_consumed = sys_consumed demo_consumed \<and> si_acknowledged_rows (sys_input demo_consumed) = 2"
proof -
  have "si_batch (sys_input demo_published) = Some demo_batch" by (simp add: demo_published_def)
  then have "sys_published demo_published = sys_consumed demo_published @ [demo_batch]"
    using stream_exactly_once [OF demo_published_reachable] by auto
  moreover have "si_batch (sys_input demo_consumed) = None" "\<not> si_cancelled (sys_input demo_consumed)"
      "\<not> si_not_needed (sys_input demo_consumed)" "sys_consumed demo_consumed = [demo_batch]"
    by (simp_all add: demo_consumed_def demo_published_def si_mark_consumed_def new_stream_input_def demo_batch_fields)
  ultimately show ?thesis
    using stream_exactly_once [OF demo_consumed_reachable] by (auto simp: demo_batch_fields)
qed

text \<open>
  C2: An acknowledgement returned to an upload handler is exact: one that says not-needed is
  complete and the input was marked not needed; any other one says that every batch placed so far
  has been consumed, with the exact cumulative batches, rows and bytes, and it is complete only
  after the scan has seen the end of the input.
\<close>

theorem stream_ack_exact:
  assumes "reachable input_init (input_step abi schema) s"
    and "sys_uploads s t = U_call (Returned (Inr ack))"
  shows "(if ack_not_needed ack then ack_complete ack \<and> si_not_needed (sys_input s)
      else sys_published s = sys_consumed s \<and>
        ack_batches ack = of_nat (length (sys_consumed s)) \<and>
        ack_rows ack = sum_list (map bv_rows (sys_consumed s)) \<and>
        ack_bytes ack = sum_list (map bv_payload_bytes (sys_consumed s)) \<and>
        (ack_complete ack \<longrightarrow> si_consumer_eof (sys_input s)))"
proof -
  have "thread_ok s (U_call (Returned (Inr ack)))"
    using input_machine.reachable_inv [OF assms(1)] assms(2) by (metis input_inv_def)
  then show ?thesis by (auto simp: thread_ok_def ack_exact_def Let_def)
qed

theorem stream_ack_exact_witness:
  "ack_batches demo_ack = 1 \<and> sys_published demo_returned = sys_consumed demo_returned"
proof -
  have "sys_uploads demo_returned 0 = U_call (Returned (Inr demo_ack))" by (simp add: demo_returned_def)
  from stream_ack_exact [OF demo_returned_reachable this] show ?thesis
    by (simp add: demo_ack_def ack_of_def demo_returned_def demo_consumed_def)
qed

text \<open>
  C15: A stream input never has two attached handlers at the same time, and no handler ever waits
  for another one to empty the slot.
\<close>

theorem stream_single_producer:
  assumes "reachable input_init (input_step abi schema) s"
    and "upload_active (sys_uploads s t)" and "upload_active (sys_uploads s u)"
  shows "t = u \<and> (\<forall>b. sys_uploads s t \<noteq> U_call (Wait_empty b))"
proof -
  note inv = input_machine.reachable_inv [OF assms(1)]
  then have "thread_ok s (sys_uploads s t)" by (simp add: input_inv_def)
  then have "\<forall>b. sys_uploads s t \<noteq> U_call (Wait_empty b)" by (auto simp: thread_ok_def Let_def)
  with inv assms(2,3) show ?thesis by (auto simp: input_inv_def)
qed

theorem stream_single_producer_witness: "\<forall>b. sys_uploads demo_published 0 \<noteq> U_call (Wait_empty b)"
proof -
  have "upload_active (sys_uploads demo_published 0)" by (simp add: demo_published_def upload_active_def)
  from stream_single_producer [OF demo_published_reachable this this] show ?thesis by blast
qed

text \<open>
  C16: Once a stream input is cancelled or marked not needed, it keeps that outcome and its error
  text forever, and its slot stays empty.
\<close>

theorem stream_first_outcome_wins:
  assumes "reachable input_init (input_step abi schema) s" and "(input_step abi schema)\<^sup>*\<^sup>* s t"
    and "input_outcome s = Some v"
  shows "input_outcome t = Some v \<and> si_batch (sys_input t) = None"
proof -
  have "input_outcome t = Some v" using input_latch.latched_forever [OF assms(2,1,3)] .
  moreover have "input_inv t" using input_machine.reachable_inv reachable_steps assms(1,2) by metis
  ultimately show ?thesis
    by (auto simp: input_inv_def slot_inv_def input_terminal_def input_outcome_def Let_def split: if_splits)
qed

theorem stream_first_outcome_wins_witness:
  "input_outcome (demo_cancelled\<lparr>sys_input := si_cancel (sys_input demo_cancelled) ''late''\<rparr>) = Some (Inl ''stop'')"
proof -
  have "demo_step\<^sup>*\<^sup>* demo_cancelled (demo_cancelled\<lparr>sys_input := si_cancel (sys_input demo_cancelled) ''late''\<rparr>)"
    by (rule r_into_rtranclp) (rule input_step.cancel)
  moreover have "input_outcome demo_cancelled = Some (Inl ''stop'')"
    by (simp add: input_outcome_def demo_cancelled_def demo_returned_def demo_consumed_def demo_published_def
        si_cancel_def si_mark_consumed_def new_stream_input_def demo_batch_fields)
  ultimately show ?thesis using stream_first_outcome_wins [OF demo_cancelled_reachable] by blast
qed

text \<open>
  C17: When an input is cancelled or not needed, in every interleaving nobody sleeps in the
  untimed wait of next_batch, so no notification is missing: next_batch returns (with the error if
  cancelled, with end of input otherwise), an upload in one of its 100 ms waits returns at its
  next wake-up, and new publish and finish_upload calls return at once.
\<close>

theorem stream_terminal_releases_waiters:
  assumes "reachable input_init (input_step abi schema) s"
    and "si_cancelled (sys_input s) \<or> si_not_needed (sys_input s)"
  shows "si_waiters (sys_input s) = {} \<and>
    snd (si_next_batch w (sys_input s)) =
      (if si_cancelled (sys_input s) then Batch_throws (Runtime_error (input_error_text (sys_input s))) else Batch_eof) \<and>
    (\<exists>r. snd (upload_wake (sys_input s) pc) = Returned r) \<and>
    (si_cancelled (sys_input s) \<and> (\<forall>r. pc \<noteq> Returned r) \<longrightarrow>
      snd (upload_wake (sys_input s) pc) = Returned (Inl (terminal_status_locked (sys_input s)))) \<and>
    (\<forall>frame i pc'. si_publish abi schema (sys_input s) frame = Inr (i, pc') \<longrightarrow> (\<exists>r. pc' = Returned r)) \<and>
    (\<exists>r. snd (si_finish_upload (sys_input s)) = Returned r)"
proof -
  have "slot_inv s" using input_machine.reachable_inv [OF assms(1)] by (simp add: input_inv_def)
  moreover have "input_terminal (sys_input s)" using assms(2) by (simp add: input_terminal_def)
  ultimately show ?thesis
    using terminal_publish by (intro conjI slot_inv_awake terminal_next_batch terminal_wake terminal_finish impI cancelled_wake) blast+
qed

theorem stream_terminal_releases_waiters_witness:
  "7 \<in> si_waiters (sys_input demo_asleep) \<and> si_waiters (sys_input demo_asleep_cancelled) = {} \<and>
   snd (si_next_batch 7 (sys_input demo_asleep_cancelled)) = Batch_throws (Runtime_error ''stop'')"
proof -
  have "si_cancelled (sys_input demo_asleep_cancelled)" "si_error (sys_input demo_asleep_cancelled) = ''stop''"
    by (simp_all add: demo_asleep_cancelled_def demo_asleep_def demo_attached_def si_cancel_def new_stream_input_def)
  moreover have "7 \<in> si_waiters (sys_input demo_asleep)" by (simp add: demo_asleep_def demo_attached_def)
  ultimately show ?thesis
    using stream_terminal_releases_waiters [OF demo_asleep_cancelled_reachable, of 7 Wait_eof]
    by (simp add: input_error_text_def)
qed

text \<open>
  C18: No wake-up is lost: whoever sleeps in next_batch could only go to sleep again, because
  there is no batch in the slot, the upload is not finished, and every batch ever placed has been
  consumed.
\<close>

theorem stream_no_lost_wakeup:
  assumes "reachable input_init (input_step abi schema) s" and "w \<in> si_waiters (sys_input s)"
  shows "snd (si_next_batch w (sys_input s)) = Batch_blocked \<and>
    si_batch (sys_input s) = None \<and> \<not> si_producer_eof (sys_input s) \<and>
    sys_published s = sys_consumed s"
proof -
  have "slot_inv s" using input_machine.reachable_inv [OF assms(1)] by (simp add: input_inv_def)
  with assms(2) show ?thesis by (auto simp: slot_inv_def si_next_batch_def input_terminal_def Let_def)
qed

theorem stream_no_lost_wakeup_witness:
  "snd (si_next_batch 7 (sys_input demo_asleep)) = Batch_blocked \<and> sys_published demo_asleep = sys_consumed demo_asleep"
proof -
  have "7 \<in> si_waiters (sys_input demo_asleep)" by (simp add: demo_asleep_def demo_attached_def)
  from stream_no_lost_wakeup [OF demo_asleep_reachable this] show ?thesis by blast
qed

section \<open>The scan emits every row once\<close>


definition chunk_rows :: "scan_result \<Rightarrow> (u64 \<times> nat) list" where
  "chunk_rows r = (case r of Scan_chunk b off n vs \<Rightarrow> map (\<lambda>i. (bv_sequence b, i)) [off..<off + n] | _ \<Rightarrow> [])"

lemma chunk_rows_chunk [simp]:
  "chunk_rows (Scan_chunk b off n vs) = map (\<lambda>i. (bv_sequence b, i)) [off..<off + n]"
  by (simp add: chunk_rows_def)






end
