(* ===== verification/Execution_Entry.thy ===== *)
theory Execution_Entry
  imports Stream_Input Machines
begin

text \<open>
  The execution entry of \<^verbatim>\<open>flight_runtime.cpp\<close> (class \<^verbatim>\<open>execution_entry\<close>): one prepared execution, its
  result slot, its terminal status, its worker thread and the upload handlers attached to it.

  One definition is one critical section of \<^verbatim>\<open>mutex_\<close> (or one call on the input registry, which has
  locks of its own).  A method with several sections is split at the points where it gives the lock
  up.  The calls \<^verbatim>\<open>execution_->cancel()\<close>, \<^verbatim>\<open>connection_->Interrupt()\<close> and \<^verbatim>\<open>evidence_->finish()\<close> go to Sirius
  and DuckDB and touch none of this state.
\<close>

section \<open>State\<close>

text \<open>\<^verbatim>\<open>worker_\<close>: never started, started and not yet joined (\<^verbatim>\<open>joinable()\<close>), or joined.\<close>

datatype worker_thread = Worker_none | Worker_joinable | Worker_joined

record execution_entry =
  ee_request :: execute_request
  ee_ticket :: bytes
  ee_inputs :: stream_input_registry
  ee_frame :: "bytes option"
  ee_sequence :: u64
  ee_terminal_status :: arrow_status
  ee_claimed :: bool
  ee_terminal :: bool
  ee_quiesced :: bool
  ee_terminal_notified :: bool
  ee_worker :: worker_thread

definition new_execution_entry :: "execute_request \<Rightarrow> bytes \<Rightarrow> stream_input_registry \<Rightarrow> execution_entry" where
  "new_execution_entry request ticket inputs =
     \<lparr>ee_request = request, ee_ticket = ticket, ee_inputs = inputs, ee_frame = None, ee_sequence = 0,
      ee_terminal_status = St_OK, ee_claimed = False, ee_terminal = False, ee_quiesced = False,
      ee_terminal_notified = False, ee_worker = Worker_none\<rparr>"

definition worker_joinable :: "execution_entry \<Rightarrow> bool" where
  "worker_joinable e \<longleftrightarrow> ee_worker e = Worker_joinable"

section \<open>Claiming and starting\<close>

definition ee_replayable :: "execution_entry \<Rightarrow> bool" where
  "ee_replayable e \<longleftrightarrow> \<not> ee_claimed e \<and> \<not> ee_terminal e"

definition ee_claim :: "execution_entry \<Rightarrow> execution_entry \<times> bool" where
  "ee_claim e = (if ee_claimed e \<or> ee_terminal e then (e, False) else (e\<lparr>ee_claimed := True\<rparr>, True))"

text \<open>The flag says that a \<^verbatim>\<open>std::thread\<close> is constructed: from then on \<^verbatim>\<open>run\<close> is under way once more.\<close>

definition ee_start :: "execution_entry \<Rightarrow> execution_entry \<times> bool" where
  "ee_start e =
     (if \<not> ee_claimed e \<or> worker_joinable e \<or> ee_terminal e then (e, False)
      else (e\<lparr>ee_worker := Worker_joinable\<rparr>, True))"

definition ee_join :: "execution_entry \<Rightarrow> execution_entry" where
  "ee_join e = (if worker_joinable e then e\<lparr>ee_worker := Worker_joined\<rparr> else e)"

section \<open>Termination\<close>

definition cancel_text :: "bool \<Rightarrow> string" where
  "cancel_text timed_out =
     (if timed_out then ''sidecar execution deadline expired'' else ''sidecar execution was cancelled'')"

definition cancel_status :: "bool \<Rightarrow> arrow_status" where
  "cancel_status timed_out =
     (if timed_out then St_Flight F_TimedOut (cancel_text True) ''DEADLINE_EXCEEDED''
      else St_Flight F_Cancelled (cancel_text False) ''CANCELLED'')"

definition gpu_text :: string where
  "gpu_text = ''sidecar GPU generation is unavailable''"

definition gpu_status :: arrow_status where
  "gpu_status = St_Flight F_Unavailable gpu_text ''GPU_DEVICE_UNAVAILABLE''"

text \<open>The first critical section of \<^verbatim>\<open>cancel\<close> and of \<^verbatim>\<open>fail_gpu_unavailable\<close>: nothing happens to a
  quiesced entry; otherwise the first terminal status is kept, and the caller learns whether no
  worker was ever started.\<close>

definition terminate_begin :: "arrow_status \<Rightarrow> execution_entry \<Rightarrow> (execution_entry \<times> bool) option" where
  "terminate_begin status e =
     (if ee_quiesced e then None
      else
        let e' = (if \<not> ee_terminal e
                  then e\<lparr>ee_terminal := True, ee_terminal_status := status, ee_frame := None\<rparr> else e) in
        Some (e', \<not> worker_joinable e'))"

definition cancel_begin :: "bool \<Rightarrow> execution_entry \<Rightarrow> (execution_entry \<times> bool) option" where
  "cancel_begin timed_out e = terminate_begin (cancel_status timed_out) e"

definition fail_gpu_begin :: "execution_entry \<Rightarrow> (execution_entry \<times> bool) option" where
  "fail_gpu_begin e = terminate_begin gpu_status e"

definition ee_cancel_inputs :: "string \<Rightarrow> execution_entry \<Rightarrow> execution_entry" where
  "ee_cancel_inputs err e = e\<lparr>ee_inputs := reg_cancel_all (ee_inputs e) err\<rparr>"

text \<open>The second critical section.\<close>

definition terminate_end :: "bool \<Rightarrow> execution_entry \<Rightarrow> execution_entry" where
  "terminate_end unstarted e = (if unstarted then e\<lparr>ee_quiesced := True\<rparr> else e)"

text \<open>\<^verbatim>\<open>maybe_notify_terminal\<close>; the flag says that \<^verbatim>\<open>on_terminal_(ticket_)\<close> is called.\<close>

definition maybe_notify_terminal :: "execution_entry \<Rightarrow> execution_entry \<times> bool" where
  "maybe_notify_terminal e =
     (if ee_quiesced e \<and> reg_active_handlers (ee_inputs e) = 0 \<and> \<not> ee_terminal_notified e
      then (e\<lparr>ee_terminal_notified := True\<rparr>, True) else (e, False))"

text \<open>The methods as one uninterrupted run; the results are those of \<^verbatim>\<open>cancel\<close> and of the callback.\<close>

definition ee_terminate :: "arrow_status \<Rightarrow> string \<Rightarrow> execution_entry \<Rightarrow> execution_entry \<times> bool \<times> bool" where
  "ee_terminate status err e =
     (case terminate_begin status e of
        None \<Rightarrow> (e, False, False)
      | Some (e1, unstarted) \<Rightarrow>
          (case maybe_notify_terminal (terminate_end unstarted (ee_cancel_inputs err e1)) of
             (e2, notify) \<Rightarrow> (e2, True, notify)))"

definition ee_cancel :: "bool \<Rightarrow> execution_entry \<Rightarrow> execution_entry \<times> bool \<times> bool" where
  "ee_cancel timed_out e = ee_terminate (cancel_status timed_out) (cancel_text timed_out) e"

definition fail_gpu_unavailable :: "execution_entry \<Rightarrow> execution_entry \<times> bool \<times> bool" where
  "fail_gpu_unavailable e = ee_terminate gpu_status gpu_text e"

section \<open>The worker\<close>

datatype execution_outcome = SUCCEEDED | FAILED | OUTCOME_CANCELLED

datatype chunk_action = CONTINUE | CANCEL

text \<open>\<^verbatim>\<open>publish\<close> before its lock: the size check and the framing with the next sequence number.\<close>

definition publish_frame :: "execution_entry \<Rightarrow> bytes \<Rightarrow> (execution_entry \<times> bytes) res" where
  "publish_frame e payload =
     (if length payload > unat (er_max_batch_bytes (ee_request e))
      then Inl (Runtime_error ''MO native result batch exceeds negotiated max_batch_bytes'')
      else
        let e' = e\<lparr>ee_sequence := ee_sequence e + 1\<rparr> in
        bindR (serialize_native_batch_frame (ee_sequence e') payload) (\<lambda>frame. Inr (e', frame)))"

definition publish_ready :: "execution_entry \<Rightarrow> bool" where
  "publish_ready e \<longleftrightarrow> ee_frame e = None \<or> ee_terminal e"

text \<open>After the first wait: \<open>None\<close> is the early return with \<^verbatim>\<open>CANCEL\<close>.\<close>

definition publish_put :: "execution_entry \<Rightarrow> bytes \<Rightarrow> execution_entry option" where
  "publish_put e frame = (if ee_terminal e then None else Some (e\<lparr>ee_frame := Some frame\<rparr>))"

definition publish_result :: "execution_entry \<Rightarrow> chunk_action" where
  "publish_result e = (if ee_terminal e then CANCEL else CONTINUE)"

text \<open>What \<^verbatim>\<open>run\<close> makes of the way \<^verbatim>\<open>run_batches\<close> ended.\<close>

datatype run_end = Run_returned | Run_throws exn | Run_throws_other

fun substrait_error :: "substrait_error_code \<Rightarrow> string \<Rightarrow> arrow_status" where
  "substrait_error UNSUPPORTED_PLAN m = St_Flight F_Failed m ''UNSUPPORTED_PLAN''"
| "substrait_error INVALID_PLAN m = St_Invalid m"
| "substrait_error AUTHENTICATION_FAILED m = St_Flight F_Unauthorized m ''AUTHENTICATION_FAILED''"
| "substrait_error READ_RESOLUTION_FAILED m = St_Flight F_Unavailable m ''READ_RESOLUTION_FAILED''"
| "substrait_error CANCELLED m = St_Flight F_Cancelled m ''CANCELLED''"
| "substrait_error EXECUTION_FAILED m = St_Flight F_Internal m ''EXECUTION_FAILED''"
| "substrait_error GPU_DEVICE_UNAVAILABLE m = St_Flight F_Unavailable m ''GPU_DEVICE_UNAVAILABLE''"

primrec exn_what :: "exn \<Rightarrow> string" where
  "exn_what (Invalid_argument m) = m"
| "exn_what (Runtime_error m) = m"
| "exn_what (Overflow_error m) = m"
| "exn_what (Logic_error m) = m"
| "exn_what (Substrait_error c m) = m"
| "exn_what (Undefined_behaviour m) = m"

text \<open>The status and outcome that \<^verbatim>\<open>run\<close> hands to \<^verbatim>\<open>finish\<close>, and whether it calls \<^verbatim>\<open>on_fatal_\<close>.\<close>

definition run_result :: "run_end \<Rightarrow> arrow_status \<times> execution_outcome \<times> bool" where
  "run_result r =
     (case r of
        Run_returned \<Rightarrow> (St_OK, SUCCEEDED, False)
      | Run_throws e \<Rightarrow>
          (case e of
             Substrait_error c m \<Rightarrow>
               (substrait_error c m, (if c = CANCELLED then OUTCOME_CANCELLED else FAILED),
                c = GPU_DEVICE_UNAVAILABLE)
           | _ \<Rightarrow> (St_Flight F_Internal (''sidecar result streaming failed: '' @ exn_what e) ''EXECUTION_FAILED'',
                   FAILED, False))
      | Run_throws_other \<Rightarrow>
          (St_Flight F_Internal ''sidecar result streaming failed'' ''EXECUTION_FAILED'', FAILED, False))"

definition finish_begin :: "arrow_status \<Rightarrow> execution_entry \<Rightarrow> execution_entry" where
  "finish_begin status e =
     (if \<not> ee_terminal e
      then e\<lparr>ee_terminal := True, ee_terminal_status := status, ee_quiesced := True\<rparr>
      else e\<lparr>ee_quiesced := True\<rparr>)"

definition finish_inputs :: "execution_outcome \<Rightarrow> execution_entry \<Rightarrow> execution_entry" where
  "finish_inputs outcome e =
     (if outcome = SUCCEEDED then e\<lparr>ee_inputs := reg_mark_all_not_needed (ee_inputs e)\<rparr>
      else ee_cancel_inputs ''sidecar execution terminated'' e)"

section \<open>The reader\<close>

datatype read_result = Read_frame bytes | Read_status arrow_status | Read_wait | Read_cancels bool

text \<open>One pass of the loop of \<^verbatim>\<open>read_next\<close>: it cancels the execution, takes a frame, returns the
  terminal status, or waits.  After \<^verbatim>\<open>cancel\<close> the loop looks at the state again.\<close>

definition read_next_poll :: "execution_entry \<Rightarrow> bool \<Rightarrow> u64 \<Rightarrow> execution_entry \<times> read_result" where
  "read_next_poll e client_cancelled now =
     (if client_cancelled \<and> \<not> ee_terminal e then (e, Read_cancels False)
      else if ee_frame e \<noteq> None \<or> ee_terminal e
      then (case ee_frame e of
              Some f \<Rightarrow> (e\<lparr>ee_frame := None\<rparr>, Read_frame f)
            | None \<Rightarrow> (e, Read_status (ee_terminal_status e)))
      else if now \<ge> er_deadline_unix_ms (ee_request e) then (e, Read_cancels True)
      else (e, Read_wait))"

section \<open>Upload handlers\<close>

text \<open>\<^verbatim>\<open>attach_input\<close> up to the return of \<^verbatim>\<open>input->attach()\<close>.  The handler counter is raised in a
  separate step.\<close>

definition attach_input_begin :: "execution_entry \<Rightarrow> bytes \<Rightarrow> execution_entry \<times> arrow_status" where
  "attach_input_begin e stream_ref =
     (case reg_find (ee_inputs e) stream_ref of
        None \<Rightarrow> (e, St_KeyError ''unknown StreamRead input reference'')
      | Some i \<Rightarrow>
          (case si_attach i of (i', st) \<Rightarrow>
             (e\<lparr>ee_inputs := (ee_inputs e)\<lparr>reg_inputs := (reg_inputs (ee_inputs e))(stream_ref \<mapsto> i')\<rparr>\<rparr>, st)))"

definition attach_input_count :: "execution_entry \<Rightarrow> execution_entry" where
  "attach_input_count e = e\<lparr>ee_inputs := handler_attached (ee_inputs e)\<rparr>"

definition attach_input :: "execution_entry \<Rightarrow> bytes \<Rightarrow> execution_entry \<times> arrow_status" where
  "attach_input e stream_ref =
     (case attach_input_begin e stream_ref of (e', st) \<Rightarrow>
        if st = St_OK then (attach_input_count e', St_OK) else (e', st))"

text \<open>\<^verbatim>\<open>detach_input\<close> before its notification.\<close>

definition detach_input_begin :: "execution_entry \<Rightarrow> bytes \<Rightarrow> execution_entry" where
  "detach_input_begin e stream_ref =
     e\<lparr>ee_inputs := handler_detached ((ee_inputs e)\<lparr>reg_inputs :=
         (reg_inputs (ee_inputs e))(stream_ref := map_option si_detach (reg_inputs (ee_inputs e) stream_ref))\<rparr>)\<rparr>"

definition detach_input :: "execution_entry \<Rightarrow> bytes \<Rightarrow> execution_entry \<times> bool" where
  "detach_input e stream_ref = maybe_notify_terminal (detach_input_begin e stream_ref)"

definition fail_input :: "string \<Rightarrow> execution_entry \<Rightarrow> execution_entry \<times> bool \<times> bool" where
  "fail_input err e = ee_cancel False (ee_cancel_inputs err e)"

text \<open>The exit test of the loop of \<^verbatim>\<open>cancel_and_join\<close>.\<close>

definition ee_is_quiet :: "execution_entry \<Rightarrow> bool" where
  "ee_is_quiet e \<longleftrightarrow> ee_quiesced e \<and> reg_active_handlers (ee_inputs e) = 0"

datatype join_poll = Join_done | Join_gives_up | Join_wait

definition cancel_and_join_poll :: "execution_entry \<Rightarrow> bool \<Rightarrow> u64 \<Rightarrow> join_poll" where
  "cancel_and_join_poll e stopped now =
     (if ee_is_quiet e then Join_done
      else if stopped \<or> now \<ge> er_deadline_unix_ms (ee_request e) then Join_gives_up
      else Join_wait)"

end
