(* ===== verification/Execution_Entry_Correct.thy ===== *)
theory Execution_Entry_Correct
  imports Execution_Entry
begin

text \<open>
  One entry under every interleaving of its worker, its reader, any number of cancelling threads and
  any number of upload handlers.  Ghost fields record the frames put into the result slot, the frames
  the reader took, the status the reader ended with, and how often claims, starts and terminal
  callbacks happened.
\<close>

section \<open>The system\<close>

text \<open>Where the worker thread stands.  \<open>Wk_idle\<close> is inside Sirius between two batches; \<open>Wk_unwind\<close>
  is an exception on its way out of \<^verbatim>\<open>publish\<close>.\<close>

datatype worker_pc =
    Wk_none | Wk_idle | Wk_put bytes | Wk_taken | Wk_unwind
  | Wk_finish_inputs execution_outcome | Wk_finish_notify | Wk_end

datatype cancel_pc = Cn_idle | Cn_inputs string bool | Cn_end bool | Cn_notify

datatype handler_pc = H_idle | H_gap bytes | H_active bytes | H_notify

record entry_system =
  es_entry :: execution_entry
  es_worker :: worker_pc
  es_cancellers :: "nat \<Rightarrow> cancel_pc"
  es_handlers :: "nat \<Rightarrow> handler_pc"
  es_placed :: "bytes list"
  es_delivered :: "bytes list"
  es_eof :: "arrow_status option"
  es_claims :: nat
  es_starts :: nat
  es_notifications :: nat

text \<open>The statuses that \<^verbatim>\<open>cancel\<close> and \<^verbatim>\<open>fail_gpu_unavailable\<close> install.\<close>

definition abort_statuses :: "arrow_status set" where
  "abort_statuses = {cancel_status True, cancel_status False, gpu_status}"

definition entry_init :: "entry_system \<Rightarrow> bool" where
  "entry_init s \<longleftrightarrow>
     (\<exists>request ticket inputs. es_entry s = new_execution_entry request ticket inputs \<and>
        reg_active_handlers inputs = 0 \<and> finite (dom (reg_inputs inputs)) \<and> reg_size inputs \<le> k_max_stream_inputs \<and>
        (\<forall>r i. reg_inputs inputs r = Some i \<longrightarrow> \<not> si_attached i)) \<and>
     es_worker s = Wk_none \<and> es_cancellers s = (\<lambda>_. Cn_idle) \<and> es_handlers s = (\<lambda>_. H_idle) \<and>
     es_placed s = [] \<and> es_delivered s = [] \<and> es_eof s = None \<and>
     es_claims s = 0 \<and> es_starts s = 0 \<and> es_notifications s = 0"

text \<open>A step of an upload or of the scan on one of the inputs: the set of inputs and their
  \<^verbatim>\<open>attached_\<close> flags stay, and so does the handler counter.\<close>

definition inputs_internal :: "stream_input_registry \<Rightarrow> stream_input_registry \<Rightarrow> bool" where
  "inputs_internal r r' \<longleftrightarrow>
     reg_active_handlers r' = reg_active_handlers r \<and> dom (reg_inputs r') = dom (reg_inputs r) \<and>
     (\<forall>k. map_option si_attached (reg_inputs r' k) = map_option si_attached (reg_inputs r k))"

inductive entry_step :: "entry_system \<Rightarrow> entry_system \<Rightarrow> bool" where
  claim:
    "ee_claim (es_entry s) = (e, ok) \<Longrightarrow>
     entry_step s (s\<lparr>es_entry := e, es_claims := es_claims s + of_bool ok\<rparr>)"
| start:
    "ee_start (es_entry s) = (e, created) \<Longrightarrow>
     entry_step s (s\<lparr>es_entry := e, es_worker := (if created then Wk_idle else es_worker s),
                     es_starts := es_starts s + of_bool created\<rparr>)"
| join:
    "es_worker s = Wk_end \<Longrightarrow> entry_step s (s\<lparr>es_entry := ee_join (es_entry s)\<rparr>)"
| publish:
    "\<lbrakk> es_worker s = Wk_idle; publish_frame (es_entry s) payload = Inr (e, frame) \<rbrakk> \<Longrightarrow>
     entry_step s (s\<lparr>es_entry := e, es_worker := Wk_put frame\<rparr>)"
| publish_throws:
    "\<lbrakk> es_worker s = Wk_idle; publish_frame (es_entry s) payload = Inl x \<rbrakk> \<Longrightarrow>
     entry_step s (s\<lparr>es_worker := Wk_unwind\<rparr>)"
| publish_put:
    "\<lbrakk> es_worker s = Wk_put frame; publish_ready (es_entry s); publish_put (es_entry s) frame = Some e \<rbrakk> \<Longrightarrow>
     entry_step s (s\<lparr>es_entry := e, es_worker := Wk_taken, es_placed := es_placed s @ [frame]\<rparr>)"
| publish_refused:
    "\<lbrakk> es_worker s = Wk_put frame; publish_ready (es_entry s); publish_put (es_entry s) frame = None \<rbrakk> \<Longrightarrow>
     entry_step s (s\<lparr>es_worker := Wk_idle\<rparr>)"
| publish_return:
    "\<lbrakk> es_worker s = Wk_taken; publish_ready (es_entry s) \<rbrakk> \<Longrightarrow> entry_step s (s\<lparr>es_worker := Wk_idle\<rparr>)"
| finish:
    "\<lbrakk> es_worker s = Wk_idle \<or> es_worker s = Wk_unwind; run_result r = (status, outcome, fatal) \<rbrakk> \<Longrightarrow>
     entry_step s (s\<lparr>es_entry := finish_begin status (es_entry s), es_worker := Wk_finish_inputs outcome\<rparr>)"
| finish_inputs:
    "es_worker s = Wk_finish_inputs outcome \<Longrightarrow>
     entry_step s (s\<lparr>es_entry := finish_inputs outcome (es_entry s), es_worker := Wk_finish_notify\<rparr>)"
| finish_notify:
    "\<lbrakk> es_worker s = Wk_finish_notify; maybe_notify_terminal (es_entry s) = (e, n) \<rbrakk> \<Longrightarrow>
     entry_step s (s\<lparr>es_entry := e, es_worker := Wk_end, es_notifications := es_notifications s + of_bool n\<rparr>)"
| cancel_begin:
    "\<lbrakk> es_cancellers s c = Cn_idle; status \<in> abort_statuses;
       terminate_begin status (es_entry s) = Some (e, unstarted) \<rbrakk> \<Longrightarrow>
     entry_step s (s\<lparr>es_entry := e, es_cancellers := (es_cancellers s)(c := Cn_inputs err unstarted)\<rparr>)"
| cancel_inputs:
    "es_cancellers s c = Cn_inputs err unstarted \<Longrightarrow>
     entry_step s (s\<lparr>es_entry := ee_cancel_inputs err (es_entry s),
                     es_cancellers := (es_cancellers s)(c := Cn_end unstarted)\<rparr>)"
| cancel_end:
    "es_cancellers s c = Cn_end unstarted \<Longrightarrow>
     entry_step s (s\<lparr>es_entry := terminate_end unstarted (es_entry s),
                     es_cancellers := (es_cancellers s)(c := Cn_notify)\<rparr>)"
| cancel_notify:
    "\<lbrakk> es_cancellers s c = Cn_notify; maybe_notify_terminal (es_entry s) = (e, n) \<rbrakk> \<Longrightarrow>
     entry_step s (s\<lparr>es_entry := e, es_cancellers := (es_cancellers s)(c := Cn_idle),
                     es_notifications := es_notifications s + of_bool n\<rparr>)"
| read_frame:
    "read_next_poll (es_entry s) client_cancelled now = (e, Read_frame f) \<Longrightarrow>
     entry_step s (s\<lparr>es_entry := e, es_delivered := es_delivered s @ [f]\<rparr>)"
| read_status:
    "read_next_poll (es_entry s) client_cancelled now = (e, Read_status st) \<Longrightarrow>
     entry_step s (s\<lparr>es_entry := e, es_eof := Some st\<rparr>)"
| attach_refused:
    "\<lbrakk> es_handlers s h = H_idle; attach_input_begin (es_entry s) ref = (e, st); st \<noteq> St_OK \<rbrakk> \<Longrightarrow>
     entry_step s (s\<lparr>es_entry := e\<rparr>)"
| attach:
    "\<lbrakk> es_handlers s h = H_idle; attach_input_begin (es_entry s) ref = (e, St_OK) \<rbrakk> \<Longrightarrow>
     entry_step s (s\<lparr>es_entry := e, es_handlers := (es_handlers s)(h := H_gap ref)\<rparr>)"
| attach_count:
    "es_handlers s h = H_gap ref \<Longrightarrow>
     entry_step s (s\<lparr>es_entry := attach_input_count (es_entry s),
                     es_handlers := (es_handlers s)(h := H_active ref)\<rparr>)"
| detach:
    "es_handlers s h = H_active ref \<Longrightarrow>
     entry_step s (s\<lparr>es_entry := detach_input_begin (es_entry s) ref,
                     es_handlers := (es_handlers s)(h := H_notify)\<rparr>)"
| detach_notify:
    "\<lbrakk> es_handlers s h = H_notify; maybe_notify_terminal (es_entry s) = (e, n) \<rbrakk> \<Longrightarrow>
     entry_step s (s\<lparr>es_entry := e, es_handlers := (es_handlers s)(h := H_idle),
                     es_notifications := es_notifications s + of_bool n\<rparr>)"
| input_traffic:
    "inputs_internal (ee_inputs (es_entry s)) r \<Longrightarrow>
     entry_step s (s\<lparr>es_entry := (es_entry s)\<lparr>ee_inputs := r\<rparr>\<rparr>)"

section \<open>The invariant\<close>

text \<open>Flags of the entry and the position of the worker.\<close>

definition worker_finished :: "worker_pc \<Rightarrow> bool" where
  "worker_finished w = (case w of Wk_finish_inputs _ \<Rightarrow> True | Wk_finish_notify \<Rightarrow> True | Wk_end \<Rightarrow> True | _ \<Rightarrow> False)"

lemma worker_finished_simps [simp]:
  "\<not> worker_finished Wk_none" "\<not> worker_finished Wk_idle" "\<not> worker_finished (Wk_put f)"
  "\<not> worker_finished Wk_taken" "\<not> worker_finished Wk_unwind" "worker_finished (Wk_finish_inputs outcome)"
  "worker_finished Wk_finish_notify" "worker_finished Wk_end"
  by (simp_all add: worker_finished_def)

definition flags_ok :: "execution_entry \<Rightarrow> worker_pc \<Rightarrow> bool" where
  "flags_ok e w \<longleftrightarrow>
     (ee_quiesced e \<longrightarrow> ee_terminal e) \<and>
     (w = Wk_none \<longleftrightarrow> ee_worker e = Worker_none) \<and>
     (ee_worker e = Worker_joined \<longrightarrow> w = Wk_end) \<and>
     (w \<noteq> Wk_none \<longrightarrow> ee_claimed e) \<and>
     (worker_finished w \<longrightarrow> ee_quiesced e) \<and>
     (ee_quiesced e \<longrightarrow> w = Wk_none \<or> worker_finished w) \<and>
     (ee_terminal_notified e \<longrightarrow> ee_quiesced e)"

definition counts_ok :: "entry_system \<Rightarrow> bool" where
  "counts_ok s \<longleftrightarrow>
     es_claims s = of_bool (ee_claimed (es_entry s)) \<and>
     es_starts s = of_bool (es_worker s \<noteq> Wk_none) \<and>
     es_notifications s = of_bool (ee_terminal_notified (es_entry s))"

definition flags_inv :: "entry_system \<Rightarrow> bool" where
  "flags_inv s \<longleftrightarrow> flags_ok (es_entry s) (es_worker s) \<and> counts_ok s"

definition canceller_ok :: "entry_system \<Rightarrow> cancel_pc \<Rightarrow> bool" where
  "canceller_ok s c =
     (case c of
        Cn_idle \<Rightarrow> True
      | Cn_inputs err u \<Rightarrow> ee_terminal (es_entry s) \<and> (u \<longrightarrow> es_worker s = Wk_none)
      | Cn_end u \<Rightarrow> ee_terminal (es_entry s) \<and> (u \<longrightarrow> es_worker s = Wk_none)
      | Cn_notify \<Rightarrow> ee_terminal (es_entry s))"

text \<open>A frame of this entry: the serialization of some payload inside the negotiated limit.\<close>

definition frame_of :: "execution_entry \<Rightarrow> nat \<Rightarrow> bytes \<Rightarrow> bool" where
  "frame_of e n frame \<longleftrightarrow>
     (\<exists>payload. serialize_native_batch_frame (of_nat n) payload = Inr frame \<and>
        length payload \<le> unat (er_max_batch_bytes (ee_request e)))"

definition frames_inv :: "entry_system \<Rightarrow> bool" where
  "frames_inv s \<longleftrightarrow>
     (let e = es_entry s; pl = es_placed s; dl = es_delivered s; w = es_worker s in
      (\<forall>k < length pl. frame_of e (Suc k) (pl ! k)) \<and>
      (\<not> ee_terminal e \<longrightarrow>
         (case w of
            Wk_put f \<Rightarrow> ee_sequence e = of_nat (Suc (length pl)) \<and> frame_of e (Suc (length pl)) f
          | Wk_unwind \<Rightarrow> True
          | _ \<Rightarrow> ee_sequence e = of_nat (length pl))) \<and>
      (case ee_frame e of
         Some f \<Rightarrow> pl = dl @ [f] \<and> w = Wk_taken \<and> \<not> ee_terminal e
       | None \<Rightarrow> pl = dl \<or> ee_terminal e \<and> ee_terminal_status e \<noteq> St_OK \<and> (\<exists>f. pl = dl @ [f])) \<and>
      (\<forall>st. es_eof s = Some st \<longrightarrow> ee_terminal e \<and> ee_terminal_status e = st))"

text \<open>Upload handlers: each holds an input of its own, and the counter counts the active ones.\<close>

definition holds :: "handler_pc \<Rightarrow> bytes option" where
  "holds h = (case h of H_gap r \<Rightarrow> Some r | H_active r \<Rightarrow> Some r | _ \<Rightarrow> None)"

definition active_set :: "entry_system \<Rightarrow> nat set" where
  "active_set s = {h. \<exists>r. es_handlers s h = H_active r}"

definition handlers_inv :: "entry_system \<Rightarrow> bool" where
  "handlers_inv s \<longleftrightarrow>
     (let r = ee_inputs (es_entry s) in
      finite (dom (reg_inputs r)) \<and> reg_size r \<le> k_max_stream_inputs \<and>
      finite (active_set s) \<and> reg_active_handlers r = of_nat (card (active_set s)) \<and>
      (\<forall>h k. holds (es_handlers s h) = Some k \<longrightarrow> (\<exists>i. reg_inputs r k = Some i \<and> si_attached i)) \<and>
      (\<forall>h g k. holds (es_handlers s h) = Some k \<and> holds (es_handlers s g) = Some k \<longrightarrow> h = g))"

definition entry_inv :: "entry_system \<Rightarrow> bool" where
  "entry_inv s \<longleftrightarrow>
     flags_inv s \<and> (\<forall>c. canceller_ok s (es_cancellers s c)) \<and> frames_inv s \<and> handlers_inv s"

section \<open>Effects of the operations\<close>

lemma ee_claim_effect:
  assumes "ee_claim e = (e', ok)"
  shows "(ok \<and> \<not> ee_claimed e \<and> \<not> ee_terminal e \<and> e' = e\<lparr>ee_claimed := True\<rparr>) \<or> (\<not> ok \<and> e' = e)"
  using assms by (simp add: ee_claim_def split: if_split_asm)

lemma ee_start_effect:
  assumes "ee_start e = (e', created)"
  shows "(created \<and> e' = e\<lparr>ee_worker := Worker_joinable\<rparr> \<and> ee_claimed e \<and> ee_worker e \<noteq> Worker_joinable \<and>
      \<not> ee_terminal e) \<or> (\<not> created \<and> e' = e)"
  using assms by (simp add: ee_start_def worker_joinable_def split: if_split_asm)

lemma terminate_begin_effect:
  assumes "terminate_begin status e = Some (e', u)"
  shows "\<not> ee_quiesced e \<and> u = (ee_worker e \<noteq> Worker_joinable) \<and>
    (if ee_terminal e then e' = e
     else e' = e\<lparr>ee_terminal := True, ee_terminal_status := status, ee_frame := None\<rparr>)"
  using assms by (auto simp: terminate_begin_def worker_joinable_def Let_def split: if_split_asm)

lemma maybe_notify_effect:
  assumes "maybe_notify_terminal e = (e', n)"
  shows "(n \<and> ee_quiesced e \<and> \<not> ee_terminal_notified e \<and> reg_active_handlers (ee_inputs e) = 0 \<and>
      e' = e\<lparr>ee_terminal_notified := True\<rparr>) \<or> (\<not> n \<and> e' = e)"
  using assms by (simp add: maybe_notify_terminal_def split: if_split_asm)

lemma publish_frame_effect:
  assumes "publish_frame e payload = Inr (e', frame)"
  shows "e' = e\<lparr>ee_sequence := ee_sequence e + 1\<rparr> \<and>
    serialize_native_batch_frame (ee_sequence e + 1) payload = Inr frame \<and>
    length payload \<le> unat (er_max_batch_bytes (ee_request e))"
  using assms by (auto simp: publish_frame_def Let_def split: if_split_asm)

lemma read_next_frame_effect:
  assumes "read_next_poll e c now = (e', Read_frame f)"
  shows "ee_frame e = Some f \<and> e' = e\<lparr>ee_frame := None\<rparr>"
  using assms by (simp add: read_next_poll_def split: if_split_asm option.split_asm)

lemma read_next_status_effect:
  assumes "read_next_poll e c now = (e', Read_status st)"
  shows "ee_frame e = None \<and> ee_terminal e \<and> ee_terminal_status e = st \<and> e' = e"
  using assms by (auto simp: read_next_poll_def split: if_split_asm option.split_asm)

text \<open>Operations on the inputs change nothing else.\<close>

lemma inputs_only:
  "\<exists>r. ee_cancel_inputs err e = e\<lparr>ee_inputs := r\<rparr>"
  "\<exists>r. finish_inputs outcome e = e\<lparr>ee_inputs := r\<rparr>"
  "\<exists>r. attach_input_count e = e\<lparr>ee_inputs := r\<rparr>"
  "\<exists>r. detach_input_begin e ref = e\<lparr>ee_inputs := r\<rparr>"
  by (auto simp: ee_cancel_inputs_def finish_inputs_def attach_input_count_def detach_input_begin_def)

lemma attach_input_begin_inputs:
  assumes "attach_input_begin e ref = (e', st)"
  shows "\<exists>r. e' = e\<lparr>ee_inputs := r\<rparr>"
proof (cases "reg_find (ee_inputs e) ref")
  case None
  then show ?thesis using assms by (intro exI [of _ "ee_inputs e"]) (simp add: attach_input_begin_def)
next
  case (Some i)
  then show ?thesis using assms by (auto simp: attach_input_begin_def split: prod.splits)
qed

section \<open>Flags and cancellers\<close>

lemma flags_init: "entry_init s \<Longrightarrow> flags_inv s"
  by (auto simp: entry_init_def flags_inv_def flags_ok_def counts_ok_def new_execution_entry_def)

lemma flags_ok_irrelevant [simp]:
  "flags_ok (e\<lparr>ee_inputs := r\<rparr>) w = flags_ok e w"
  "flags_ok (e\<lparr>ee_frame := f\<rparr>) w = flags_ok e w"
  "flags_ok (e\<lparr>ee_sequence := n\<rparr>) w = flags_ok e w"
  by (simp_all add: flags_ok_def)

lemma flags_ok_notify:
  assumes "maybe_notify_terminal e = (e', n)" and "flags_ok e w"
  shows "flags_ok e' w"
  using maybe_notify_effect [OF assms(1)] assms(2) by (auto simp: flags_ok_def)

lemma flags_ok_step:
  assumes "entry_step s t" and "flags_ok (es_entry s) (es_worker s)"
    and "\<forall>c. canceller_ok s (es_cancellers s c)"
  shows "flags_ok (es_entry t) (es_worker t)"
  using assms
proof (induction rule: entry_step.induct)
  case (claim s e ok)
  then show ?case using ee_claim_effect [OF claim(1)] by (auto simp: flags_ok_def)
next
  case (start s e created)
  then show ?case using ee_start_effect [OF start(1)] by (auto simp: flags_ok_def)
next
  case (join s)
  then show ?case by (auto simp: flags_ok_def ee_join_def worker_joinable_def)
next
  case (publish s payload e frame)
  then show ?case using publish_frame_effect [OF publish(2)] by (auto simp: flags_ok_def)
next
  case (publish_put s frame e)
  then show ?case by (auto simp: flags_ok_def publish_put_def split: if_split_asm)
next
  case (finish s r status outcome fatal)
  then show ?case by (auto simp: flags_ok_def finish_begin_def)
next
  case (finish_inputs s outcome)
  then show ?case using inputs_only(2) [of outcome "es_entry s"] by (auto simp: flags_ok_def)
next
  case (finish_notify s e n)
  then have "flags_ok e Wk_finish_notify" using flags_ok_notify by simp
  then show ?case by (auto simp: flags_ok_def)
next
  case (cancel_begin s c status e unstarted err)
  then show ?case
    using terminate_begin_effect [OF cancel_begin(3)] by (auto simp: flags_ok_def split: if_split_asm)
next
  case (cancel_inputs s c err unstarted)
  then show ?case using inputs_only(1) [of err "es_entry s"] by auto
next
  case (cancel_end s c unstarted)
  then have "canceller_ok s (Cn_end unstarted)" by metis
  with cancel_end(2) show ?case by (auto simp: flags_ok_def canceller_ok_def terminate_end_def)
next
  case (cancel_notify s c e n)
  then show ?case using flags_ok_notify by simp
next
  case (read_frame s cc now e f)
  then show ?case using read_next_frame_effect [OF read_frame(1)] by simp
next
  case (read_status s cc now e st)
  then show ?case using read_next_status_effect [OF read_status(1)] by simp
next
  case (attach_refused s h ref e st)
  then show ?case using attach_input_begin_inputs [OF attach_refused(2)] by auto
next
  case (attach s h ref e)
  then show ?case using attach_input_begin_inputs [OF attach(2)] by auto
next
  case (attach_count s h ref)
  then show ?case using inputs_only(3) [of "es_entry s"] by auto
next
  case (detach s h ref)
  then show ?case using inputs_only(4) [of "es_entry s" ref] by auto
next
  case (detach_notify s h e n)
  then show ?case using flags_ok_notify by simp
qed (auto simp: flags_ok_def)

text \<open>A start that creates a thread creates the first one.\<close>

lemma start_cases:
  assumes "ee_start e = (e', created)" and "flags_ok e w"
  obtains (created) "created" and "e' = e\<lparr>ee_worker := Worker_joinable\<rparr>" and "w = Wk_none" and "\<not> ee_terminal e"
      and "ee_claimed e"
  | (same) "\<not> created" and "e' = e"
proof -
  have "w = Wk_none" if "ee_claimed e" "ee_worker e \<noteq> Worker_joinable" "\<not> ee_terminal e"
    using assms(2) that by (cases "ee_worker e") (auto simp: flags_ok_def)
  with ee_start_effect [OF assms(1)] show thesis using created same by blast
qed

lemma entry_same [simp]: "s\<lparr>es_entry := es_entry s\<rparr> = s"
  by (cases s) simp

lemma counts_step:
  assumes "entry_step s t" and "flags_inv s"
  shows "counts_ok t"
  using assms
proof (induction rule: entry_step.induct)
  case (claim s e ok)
  then show ?case using ee_claim_effect [OF claim(1)] by (auto simp: flags_inv_def counts_ok_def)
next
  case (start s e created)
  have "flags_ok (es_entry s) (es_worker s)" using start(2) by (simp add: flags_inv_def)
  with start(1) show ?case
    by (cases rule: start_cases) (use start(2) in \<open>simp_all add: flags_inv_def counts_ok_def\<close>)
next
  case (join s)
  then show ?case by (simp add: flags_inv_def counts_ok_def ee_join_def)
next
  case (publish s payload e frame)
  then show ?case using publish_frame_effect [OF publish(2)] by (simp add: flags_inv_def counts_ok_def)
next
  case (publish_put s frame e)
  then show ?case by (auto simp: flags_inv_def counts_ok_def publish_put_def split: if_split_asm)
next
  case (finish s r status outcome fatal)
  then show ?case by (auto simp: flags_inv_def counts_ok_def finish_begin_def)
next
  case (finish_inputs s outcome)
  then show ?case using inputs_only(2) [of outcome "es_entry s"] by (auto simp: flags_inv_def counts_ok_def)
next
  case (finish_notify s e n)
  then show ?case using maybe_notify_effect [OF finish_notify(2)] by (auto simp: flags_inv_def counts_ok_def)
next
  case (cancel_begin s c status e unstarted err)
  then show ?case
    using terminate_begin_effect [OF cancel_begin(3)] by (auto simp: flags_inv_def counts_ok_def split: if_split_asm)
next
  case (cancel_inputs s c err unstarted)
  then show ?case using inputs_only(1) [of err "es_entry s"] by (auto simp: flags_inv_def counts_ok_def)
next
  case (cancel_end s c unstarted)
  then show ?case by (simp add: flags_inv_def counts_ok_def terminate_end_def)
next
  case (cancel_notify s c e n)
  then show ?case using maybe_notify_effect [OF cancel_notify(2)] by (auto simp: flags_inv_def counts_ok_def)
next
  case (read_frame s cc now e f)
  then show ?case using read_next_frame_effect [OF read_frame(1)] by (simp add: flags_inv_def counts_ok_def)
next
  case (read_status s cc now e st)
  then show ?case using read_next_status_effect [OF read_status(1)] by (simp add: flags_inv_def counts_ok_def)
next
  case (attach_refused s h ref e st)
  then show ?case using attach_input_begin_inputs [OF attach_refused(2)] by (auto simp: flags_inv_def counts_ok_def)
next
  case (attach s h ref e)
  then show ?case using attach_input_begin_inputs [OF attach(2)] by (auto simp: flags_inv_def counts_ok_def)
next
  case (attach_count s h ref)
  then show ?case using inputs_only(3) [of "es_entry s"] by (auto simp: flags_inv_def counts_ok_def)
next
  case (detach s h ref)
  then show ?case using inputs_only(4) [of "es_entry s" ref] by (auto simp: flags_inv_def counts_ok_def)
next
  case (detach_notify s h e n)
  then show ?case using maybe_notify_effect [OF detach_notify(2)] by (auto simp: flags_inv_def counts_ok_def)
qed (auto simp: flags_inv_def counts_ok_def)

text \<open>Every step keeps \<open>ee_terminal\<close>; a worker that was never started stays so once it is set.\<close>

lemma terminal_step:
  assumes "entry_step s t" and "flags_ok (es_entry s) (es_worker s)" and "ee_terminal (es_entry s)"
  shows "ee_terminal (es_entry t) \<and> ee_terminal_status (es_entry t) = ee_terminal_status (es_entry s) \<and>
    (es_worker s = Wk_none \<longrightarrow> es_worker t = Wk_none)"
  using assms
proof (induction rule: entry_step.induct)
  case (claim s e ok)
  then show ?case using ee_claim_effect [OF claim(1)] by auto
next
  case (start s e created)
  from start(1,2) show ?case
    by (cases rule: start_cases) (use start(3) in simp_all)
next
  case (join s)
  then show ?case by (simp add: ee_join_def)
next
  case (publish s payload e frame)
  then show ?case using publish_frame_effect [OF publish(2)] by simp
next
  case (publish_put s frame e)
  then show ?case by (simp add: publish_put_def)
next
  case (finish s r status outcome fatal)
  then show ?case by (auto simp: finish_begin_def)
next
  case (finish_inputs s outcome)
  then show ?case using inputs_only(2) [of outcome "es_entry s"] by auto
next
  case (finish_notify s e n)
  then show ?case using maybe_notify_effect [OF finish_notify(2)] by auto
next
  case (cancel_begin s c status e unstarted err)
  then show ?case using terminate_begin_effect [OF cancel_begin(3)] by simp
next
  case (cancel_inputs s c err unstarted)
  then show ?case using inputs_only(1) [of err "es_entry s"] by auto
next
  case (cancel_end s c unstarted)
  then show ?case by (simp add: terminate_end_def)
next
  case (cancel_notify s c e n)
  then show ?case using maybe_notify_effect [OF cancel_notify(2)] by auto
next
  case (read_frame s cc now e f)
  then show ?case using read_next_frame_effect [OF read_frame(1)] by simp
next
  case (read_status s cc now e st)
  then show ?case using read_next_status_effect [OF read_status(1)] by simp
next
  case (attach_refused s h ref e st)
  then show ?case using attach_input_begin_inputs [OF attach_refused(2)] by auto
next
  case (attach s h ref e)
  then show ?case using attach_input_begin_inputs [OF attach(2)] by auto
next
  case (attach_count s h ref)
  then show ?case using inputs_only(3) [of "es_entry s"] by auto
next
  case (detach s h ref)
  then show ?case using inputs_only(4) [of "es_entry s" ref] by auto
next
  case (detach_notify s h e n)
  then show ?case using maybe_notify_effect [OF detach_notify(2)] by auto
qed auto

lemma canceller_ok_mono:
  assumes "entry_step s t" and "flags_ok (es_entry s) (es_worker s)" and "canceller_ok s c"
  shows "canceller_ok t c"
  using terminal_step [OF assms(1,2)] assms(3) by (auto simp: canceller_ok_def split: cancel_pc.splits)

lemma canceller_step:
  assumes step: "entry_step s t" and flags: "flags_ok (es_entry s) (es_worker s)"
    and ok: "\<forall>c. canceller_ok s (es_cancellers s c)"
  shows "\<forall>c. canceller_ok t (es_cancellers t c)"
proof
  fix d
  have old: "canceller_ok t (es_cancellers s d)" using canceller_ok_mono [OF step flags] ok by blast
  from step flags ok old show "canceller_ok t (es_cancellers t d)"
  proof (cases rule: entry_step.cases)
    case (cancel_begin c status e unstarted err)
    have "unstarted \<longrightarrow> es_worker s = Wk_none" and "ee_terminal e"
      using terminate_begin_effect [OF cancel_begin(4)] flags
      by (cases "ee_worker (es_entry s)"; auto simp: flags_ok_def split: if_split_asm)+
    then show ?thesis using old cancel_begin(1) by (auto simp: canceller_ok_def)
  next
    case (cancel_inputs c err unstarted)
    have "canceller_ok t (Cn_inputs err unstarted)" using canceller_ok_mono [OF step flags] ok cancel_inputs(2) by metis
    then show ?thesis using old cancel_inputs(1) by (auto simp: canceller_ok_def)
  next
    case (cancel_end c unstarted)
    have "canceller_ok t (Cn_end unstarted)" using canceller_ok_mono [OF step flags] ok cancel_end(2) by metis
    then show ?thesis using old cancel_end(1) by (auto simp: canceller_ok_def)
  next
    case (cancel_notify c e n)
    then show ?thesis using old by (auto simp: canceller_ok_def)
  qed (use old in simp_all)
qed

section \<open>Frames\<close>

lemma frames_init: "entry_init s \<Longrightarrow> frames_inv s"
  by (auto simp: entry_init_def frames_inv_def new_execution_entry_def)

text \<open>What the frame invariant looks at.\<close>

lemma frame_of_request: "ee_request e' = ee_request e \<Longrightarrow> frame_of e' n f = frame_of e n f"
  by (simp add: frame_of_def)

lemma frames_same:
  assumes "frames_inv s" and "ee_request (es_entry t) = ee_request (es_entry s)"
    and "ee_terminal (es_entry t) = ee_terminal (es_entry s)"
    and "ee_terminal_status (es_entry t) = ee_terminal_status (es_entry s)"
    and "ee_sequence (es_entry t) = ee_sequence (es_entry s)" and "ee_frame (es_entry t) = ee_frame (es_entry s)"
    and "es_placed t = es_placed s" and "es_delivered t = es_delivered s" and "es_worker t = es_worker s"
    and "\<forall>st. es_eof t = Some st \<longrightarrow> es_eof s = Some st \<or> ee_terminal (es_entry s) \<and> ee_terminal_status (es_entry s) = st"
  shows "frames_inv t"
  using assms(1,10) unfolding frames_inv_def Let_def frame_of_request [OF assms(2)] assms(3-9) by auto

text \<open>In a terminal state the worker's position only matters while the slot is full.\<close>

lemma frames_worker:
  assumes "frames_inv s" and "ee_frame (es_entry s) = None"
    and "ee_terminal (es_entry s) \<or> es_worker s = Wk_taken \<and> w = Wk_idle \<or> w = Wk_unwind"
  shows "frames_inv (s\<lparr>es_worker := w\<rparr>)"
  using assms unfolding frames_inv_def Let_def by auto

lemma no_frame: "frames_inv s \<Longrightarrow> es_worker s \<noteq> Wk_taken \<or> ee_terminal (es_entry s) \<Longrightarrow> ee_frame (es_entry s) = None"
  by (auto simp: frames_inv_def Let_def split: option.splits)

lemma frames_publish:
  assumes inv: "frames_inv s" and idle: "es_worker s = Wk_idle"
    and op: "publish_frame (es_entry s) payload = Inr (e, frame)"
  shows "frames_inv (s\<lparr>es_entry := e, es_worker := Wk_put frame\<rparr>)"
proof -
  note eff = publish_frame_effect [OF op]
  have seq: "ee_sequence (es_entry s) = of_nat (length (es_placed s))" if "\<not> ee_terminal (es_entry s)"
    using inv idle that by (simp add: frames_inv_def Let_def)
  have "frame_of e (Suc (length (es_placed s))) frame" if "\<not> ee_terminal (es_entry s)"
    using eff seq [OF that] by (auto simp: frame_of_def add.commute)
  then show ?thesis
    using inv no_frame [OF inv] idle eff seq frame_of_request [of e "es_entry s"]
    by (auto simp: frames_inv_def Let_def)
qed

lemma frames_put:
  assumes inv: "frames_inv s" and put: "es_worker s = Wk_put frame"
    and op: "publish_put (es_entry s) frame = Some e"
  shows "frames_inv (s\<lparr>es_entry := e, es_worker := Wk_taken, es_placed := es_placed s @ [frame]\<rparr>)"
proof -
  have e: "e = (es_entry s)\<lparr>ee_frame := Some frame\<rparr>" and live: "\<not> ee_terminal (es_entry s)"
    using op by (auto simp: publish_put_def split: if_split_asm)
  have "es_placed s = es_delivered s"
    using inv no_frame [OF inv] put live by (auto simp: frames_inv_def Let_def)
  then show ?thesis
    using inv put live frame_of_request [of e "es_entry s"]
    by (auto simp: e frames_inv_def Let_def nth_append less_Suc_eq)
qed

lemma frames_finish:
  assumes inv: "frames_inv s" and w: "es_worker s = Wk_idle \<or> es_worker s = Wk_unwind"
  shows "frames_inv (s\<lparr>es_entry := finish_begin status (es_entry s), es_worker := Wk_finish_inputs outcome\<rparr>)"
proof -
  have empty: "ee_frame (es_entry s) = None" using no_frame [OF inv] w by auto
  have "es_placed s = es_delivered s" if "\<not> ee_terminal (es_entry s)"
    using inv empty that by (auto simp: frames_inv_def Let_def)
  moreover have "es_eof s = None" if "\<not> ee_terminal (es_entry s)"
    using inv that by (auto simp: frames_inv_def Let_def)
  moreover have "frame_of (finish_begin status (es_entry s)) n f = frame_of (es_entry s) n f" for n f
    by (rule frame_of_request) (simp add: finish_begin_def)
  ultimately show ?thesis
    using inv empty by (auto simp: frames_inv_def Let_def finish_begin_def)
qed

lemma frames_terminate:
  assumes inv: "frames_inv s" and status: "status \<noteq> St_OK"
    and op: "terminate_begin status (es_entry s) = Some (e, u)"
  shows "frames_inv (s\<lparr>es_entry := e\<rparr>)"
proof (cases "ee_terminal (es_entry s)")
  case True
  then show ?thesis using terminate_begin_effect [OF op] inv by simp
next
  case False
  then have e: "e = (es_entry s)\<lparr>ee_terminal := True, ee_terminal_status := status, ee_frame := None\<rparr>"
    using terminate_begin_effect [OF op] by simp
  have "es_eof s = None" using inv False by (auto simp: frames_inv_def Let_def)
  then show ?thesis
    using inv status False frame_of_request [of e "es_entry s"]
    by (cases "ee_frame (es_entry s)") (auto simp: e frames_inv_def Let_def)
qed

lemma frames_read:
  assumes inv: "frames_inv s" and op: "read_next_poll (es_entry s) c now = (e, Read_frame f)"
  shows "frames_inv (s\<lparr>es_entry := e, es_delivered := es_delivered s @ [f]\<rparr>)"
  using inv read_next_frame_effect [OF op] frame_of_request [of e "es_entry s"]
  by (auto simp: frames_inv_def Let_def)

lemma frames_step:
  assumes "entry_step s t" and "frames_inv s" and "flags_ok (es_entry s) (es_worker s)"
  shows "frames_inv t"
  using assms
proof (induction rule: entry_step.induct)
  case (claim s e ok)
  then show ?case using ee_claim_effect [OF claim(1)] by (auto intro!: frames_same [OF claim(2)])
next
  case (start s e created)
  from start(1,3) show ?case
  proof (cases rule: start_cases)
    case created
    then have "ee_frame (es_entry s) = None" using no_frame [OF start(2)] by simp
    with created start(2) frame_of_request [of e "es_entry s"] show ?thesis
      by (auto simp: frames_inv_def Let_def)
  next
    case same
    then show ?thesis by (auto intro!: frames_same [OF start(2)])
  qed
next
  case (join s)
  show ?case by (rule frames_same [OF join(2)]) (simp_all add: ee_join_def)
next
  case (publish s payload e frame)
  then show ?case by (intro frames_publish)
next
  case (publish_throws s payload x)
  then show ?case using no_frame [OF publish_throws(3)] by (intro frames_worker) auto
next
  case (publish_put s frame e)
  then show ?case by (intro frames_put)
next
  case (publish_refused s frame)
  then show ?case
    using no_frame [OF publish_refused(4)] by (intro frames_worker) (auto simp: publish_put_def split: if_split_asm)
next
  case (publish_return s)
  then show ?case
    using no_frame [OF publish_return(3)] by (intro frames_worker) (auto simp: publish_ready_def)
next
  case (finish s r status outcome fatal)
  then show ?case by (intro frames_finish)
next
  case (finish_inputs s outcome)
  have quiet: "ee_terminal (es_entry s)" using finish_inputs(1,3) by (auto simp: flags_ok_def)
  have "frames_inv (s\<lparr>es_worker := Wk_finish_notify\<rparr>)"
    using no_frame [OF finish_inputs(2)] finish_inputs quiet by (intro frames_worker) auto
  then show ?case
    using inputs_only(2) [of outcome "es_entry s"] by (auto elim!: frames_same)
next
  case (finish_notify s e n)
  have quiet: "ee_terminal (es_entry s)" using finish_notify(1,4) by (auto simp: flags_ok_def)
  have "frames_inv (s\<lparr>es_worker := Wk_end\<rparr>)"
    using no_frame [OF finish_notify(3)] finish_notify quiet by (intro frames_worker) auto
  then show ?case
    using maybe_notify_effect [OF finish_notify(2)] by (auto elim!: frames_same)
next
  case (cancel_begin s c status e unstarted err)
  have "status \<noteq> St_OK" using cancel_begin(2) by (auto simp: abort_statuses_def cancel_status_def gpu_status_def)
  from frames_terminate [OF cancel_begin(4) this cancel_begin(3)] show ?case by (auto elim!: frames_same)
next
  case (cancel_inputs s c err unstarted)
  then show ?case using inputs_only(1) [of err "es_entry s"] by (auto intro!: frames_same [OF cancel_inputs(2)])
next
  case (cancel_end s c unstarted)
  show ?case by (rule frames_same [OF cancel_end(2)]) (simp_all add: terminate_end_def)
next
  case (cancel_notify s c e n)
  then show ?case using maybe_notify_effect [OF cancel_notify(2)] by (auto intro!: frames_same [OF cancel_notify(3)])
next
  case (read_frame s cc now e f)
  then show ?case by (intro frames_read)
next
  case (read_status s cc now e st)
  then show ?case using read_next_status_effect [OF read_status(1)] by (auto intro!: frames_same [OF read_status(2)])
next
  case (attach_refused s h ref e st)
  then show ?case using attach_input_begin_inputs [OF attach_refused(2)] by (auto intro!: frames_same [OF attach_refused(4)])
next
  case (attach s h ref e)
  then show ?case using attach_input_begin_inputs [OF attach(2)] by (auto intro!: frames_same [OF attach(3)])
next
  case (attach_count s h ref)
  then show ?case using inputs_only(3) [of "es_entry s"] by (auto intro!: frames_same [OF attach_count(2)])
next
  case (detach s h ref)
  then show ?case using inputs_only(4) [of "es_entry s" ref] by (auto intro!: frames_same [OF detach(2)])
next
  case (detach_notify s h e n)
  then show ?case using maybe_notify_effect [OF detach_notify(2)] by (auto intro!: frames_same [OF detach_notify(3)])
next
  case (input_traffic s r)
  show ?case by (rule frames_same [OF input_traffic(2)]) simp_all
qed

section \<open>Upload handlers\<close>

lemma handlers_init: "entry_init s \<Longrightarrow> handlers_inv s"
  by (auto simp: entry_init_def handlers_inv_def new_execution_entry_def active_set_def holds_def Let_def)

lemma handlers_held:
  assumes "handlers_inv s" and "holds (es_handlers s g) = Some k"
  obtains i where "reg_inputs (ee_inputs (es_entry s)) k = Some i" and "si_attached i"
  using assms unfolding handlers_inv_def Let_def by blast

lemma inputs_internal_refl [simp]: "inputs_internal r r"
  by (simp add: inputs_internal_def)

lemma inputs_internal_all:
  "inputs_internal r (reg_cancel_all r err)" "inputs_internal r (reg_mark_all_not_needed r)"
  by (auto simp: inputs_internal_def reg_cancel_all_def reg_mark_all_not_needed_def si_cancel_def
      si_mark_not_needed_def dom_def option.map_comp o_def intro!: option.map_cong0)

lemma handlers_same:
  assumes "handlers_inv s" and "inputs_internal (ee_inputs (es_entry s)) (ee_inputs (es_entry t))"
    and "es_handlers t = es_handlers s"
  shows "handlers_inv t"
proof -
  let ?r = "ee_inputs (es_entry s)" and ?r' = "ee_inputs (es_entry t)"
  have dom: "dom (reg_inputs ?r') = dom (reg_inputs ?r)"
    and att: "map_option si_attached (reg_inputs ?r' k) = map_option si_attached (reg_inputs ?r k)" for k
    using assms(2) by (auto simp: inputs_internal_def)
  have "\<exists>i. reg_inputs ?r' k = Some i \<and> si_attached i" if "\<exists>i. reg_inputs ?r k = Some i \<and> si_attached i" for k
    using that att [of k] by (cases "reg_inputs ?r' k") auto
  then show ?thesis
    using assms by (auto simp: handlers_inv_def active_set_def reg_size_def dom inputs_internal_def Let_def)
qed

lemma attach_input_begin_refused:
  assumes "attach_input_begin e ref = (e', st)" and "st \<noteq> St_OK"
  shows "ee_inputs e' = ee_inputs e"
proof (cases "reg_inputs (ee_inputs e) ref")
  case None
  then show ?thesis using assms by (auto simp: attach_input_begin_def reg_find_def)
next
  case (Some i)
  then have "(reg_inputs (ee_inputs e))(ref \<mapsto> i) = reg_inputs (ee_inputs e)" by (simp add: fun_upd_idem)
  then show ?thesis
    using assms Some by (auto simp: attach_input_begin_def reg_find_def si_attach_def split: if_split_asm)
qed

lemma attach_input_begin_ok:
  assumes "attach_input_begin e ref = (e', St_OK)"
  obtains i where "reg_inputs (ee_inputs e) ref = Some i" and "\<not> si_attached i"
    and "ee_inputs e' = (ee_inputs e)\<lparr>reg_inputs := (reg_inputs (ee_inputs e))
      (ref \<mapsto> i\<lparr>si_attached := True, si_detached := False\<rparr>)\<rparr>"
proof (cases "reg_inputs (ee_inputs e) ref")
  case None
  then show thesis using assms by (simp add: attach_input_begin_def reg_find_def)
next
  case (Some i)
  then show thesis
    using assms that by (auto simp: attach_input_begin_def reg_find_def si_attach_def terminal_status_locked_def
        split: if_split_asm)
qed

lemma handlers_attach:
  assumes inv: "handlers_inv s" and idle: "es_handlers s h = H_idle"
    and op: "attach_input_begin (es_entry s) ref = (e, St_OK)"
  shows "handlers_inv (s\<lparr>es_entry := e, es_handlers := (es_handlers s)(h := H_gap ref)\<rparr>)" (is "handlers_inv ?t")
proof -
  from op obtain i where i: "reg_inputs (ee_inputs (es_entry s)) ref = Some i" "\<not> si_attached i"
    and e: "ee_inputs e = (ee_inputs (es_entry s))\<lparr>reg_inputs := (reg_inputs (ee_inputs (es_entry s)))
      (ref \<mapsto> i\<lparr>si_attached := True, si_detached := False\<rparr>)\<rparr>"
    by (rule attach_input_begin_ok)
  have free: "holds (es_handlers s g) \<noteq> Some ref" for g
    using i by (auto elim!: handlers_held [OF inv])
  have same: "active_set ?t = active_set s" using idle by (auto simp: active_set_def)
  have dom: "insert ref (dom (reg_inputs (ee_inputs (es_entry s)))) = dom (reg_inputs (ee_inputs (es_entry s)))"
    using i(1) by auto
  show ?thesis
    using inv free unfolding handlers_inv_def Let_def same
    by (auto simp: e reg_size_def dom holds_def split: if_split_asm)
qed

lemma handlers_count:
  assumes inv: "handlers_inv s" and gap: "es_handlers s h = H_gap ref"
  shows "handlers_inv (s\<lparr>es_entry := attach_input_count (es_entry s),
    es_handlers := (es_handlers s)(h := H_active ref)\<rparr>)" (is "handlers_inv ?t")
proof -
  have "active_set ?t = insert h (active_set s)" and "h \<notin> active_set s"
    using gap by (auto simp: active_set_def)
  moreover have held: "holds (es_handlers ?t g) = holds (es_handlers s g)" for g
    using gap by (simp add: holds_def)
  ultimately show ?thesis
    using inv unfolding handlers_inv_def Let_def held
    by (simp add: attach_input_count_def handler_attached_def reg_size_def)
qed

lemma handlers_detach:
  assumes inv: "handlers_inv s" and active: "es_handlers s h = H_active ref"
  shows "handlers_inv (s\<lparr>es_entry := detach_input_begin (es_entry s) ref,
    es_handlers := (es_handlers s)(h := H_notify)\<rparr>)" (is "handlers_inv ?t")
proof -
  let ?r = "ee_inputs (es_entry s)"
  have set: "active_set ?t = active_set s - {h}" and mem: "h \<in> active_set s"
    using active by (auto simp: active_set_def)
  have fin: "finite (active_set s)" using inv by (simp add: handlers_inv_def Let_def)
  then have card: "card (active_set s) = Suc (card (active_set ?t))"
    using mem set by (metis card_Suc_Diff1)
  have held: "holds (es_handlers ?t g) = Some k \<Longrightarrow> holds (es_handlers s g) = Some k" for g k
    by (auto simp: holds_def split: if_split_asm)
  obtain i where i: "reg_inputs ?r ref = Some i" using handlers_held [OF inv, of h ref] active by (auto simp: holds_def)
  let ?m = "(reg_inputs ?r)(ref \<mapsto> si_detach i)"
  have inputs: "reg_inputs (ee_inputs (es_entry ?t)) = ?m"
    and count: "reg_active_handlers (ee_inputs (es_entry ?t)) = reg_active_handlers ?r - 1"
    using i by (auto simp: detach_input_begin_def handler_detached_def)
  have dom: "insert ref (dom (reg_inputs ?r)) = dom (reg_inputs ?r)" using i by auto
  have att: "\<exists>j. ?m k = Some j \<and> si_attached j" if "\<exists>j. reg_inputs ?r k = Some j \<and> si_attached j" for k
    using that i by (auto simp: si_detach_def)
  have size: "reg_size (ee_inputs (es_entry ?t)) = reg_size ?r"
    unfolding reg_size_def inputs by (simp add: dom)
  have "reg_active_handlers (ee_inputs (es_entry ?t)) = of_nat (card (active_set ?t))"
    unfolding count using inv card by (simp add: handlers_inv_def Let_def)
  moreover have "\<exists>j. ?m k = Some j \<and> si_attached j" if "holds (es_handlers ?t g) = Some k" for g k
    using inv held [OF that] att by (auto simp: handlers_inv_def Let_def)
  moreover have "g = g'" if "holds (es_handlers ?t g) = Some k" "holds (es_handlers ?t g') = Some k" for g g' k
    using inv held [OF that(1)] held [OF that(2)] by (auto simp: handlers_inv_def Let_def)
  moreover have "finite (active_set ?t)" using fin set by simp
  moreover have "finite (dom ?m)" "reg_size ?r \<le> k_max_stream_inputs"
    using inv by (simp_all add: handlers_inv_def Let_def)
  ultimately show ?thesis unfolding handlers_inv_def Let_def inputs size by blast
qed

lemma handlers_inactive:
  assumes "handlers_inv s" and "es_handlers s h = H_notify" and "inputs_internal (ee_inputs (es_entry s)) (ee_inputs e)"
  shows "handlers_inv (s\<lparr>es_entry := e, es_handlers := (es_handlers s)(h := H_idle)\<rparr>)" (is "handlers_inv ?t")
proof -
  have mid: "handlers_inv (s\<lparr>es_entry := e\<rparr>)" using handlers_same [OF assms(1)] assms(3) by simp
  have held: "holds (es_handlers ?t g) = holds (es_handlers s g)" for g using assms(2) by (simp add: holds_def)
  have "active_set ?t = active_set (s\<lparr>es_entry := e\<rparr>)" using assms(2) by (auto simp: active_set_def)
  then show ?thesis using mid unfolding handlers_inv_def Let_def held by simp
qed

lemma maybe_notify_inputs: "maybe_notify_terminal e = (e', n) \<Longrightarrow> ee_inputs e' = ee_inputs e"
  by (auto dest!: maybe_notify_effect)

lemma handlers_step:
  assumes "entry_step s t" and "handlers_inv s" and "flags_ok (es_entry s) (es_worker s)"
  shows "handlers_inv t"
  using assms
proof (induction rule: entry_step.induct)
  case (claim s e ok)
  then show ?case using ee_claim_effect [OF claim(1)] by (auto intro!: handlers_same [OF claim(2)])
next
  case (start s e created)
  from start(1,3) show ?case
    by (cases rule: start_cases) (auto intro!: handlers_same [OF start(2)])
next
  case (join s)
  show ?case by (rule handlers_same [OF join(2)]) (simp_all add: ee_join_def)
next
  case (publish s payload e frame)
  then show ?case using publish_frame_effect [OF publish(2)] by (auto intro!: handlers_same [OF publish(3)])
next
  case (publish_throws s payload x)
  show ?case by (rule handlers_same [OF publish_throws(3)]) simp_all
next
  case (publish_put s frame e)
  then show ?case by (auto simp: publish_put_def split: if_split_asm intro!: handlers_same [OF publish_put(4)])
next
  case (publish_refused s frame)
  show ?case by (rule handlers_same [OF publish_refused(4)]) simp_all
next
  case (publish_return s)
  show ?case by (rule handlers_same [OF publish_return(3)]) simp_all
next
  case (finish s r status outcome fatal)
  show ?case by (rule handlers_same [OF finish(3)]) (simp_all add: finish_begin_def)
next
  case (finish_inputs s outcome)
  show ?case
    by (rule handlers_same [OF finish_inputs(2)])
      (simp_all add: finish_inputs_def ee_cancel_inputs_def inputs_internal_all)
next
  case (finish_notify s e n)
  show ?case
    by (rule handlers_same [OF finish_notify(3)]) (simp_all add: maybe_notify_inputs [OF finish_notify(2)])
next
  case (cancel_begin s c status e unstarted err)
  then show ?case
    using terminate_begin_effect [OF cancel_begin(3)]
    by (auto split: if_split_asm intro!: handlers_same [OF cancel_begin(4)])
next
  case (cancel_inputs s c err unstarted)
  show ?case
    by (rule handlers_same [OF cancel_inputs(2)]) (simp_all add: ee_cancel_inputs_def inputs_internal_all)
next
  case (cancel_end s c unstarted)
  show ?case by (rule handlers_same [OF cancel_end(2)]) (simp_all add: terminate_end_def)
next
  case (cancel_notify s c e n)
  show ?case
    by (rule handlers_same [OF cancel_notify(3)]) (simp_all add: maybe_notify_inputs [OF cancel_notify(2)])
next
  case (read_frame s cc now e f)
  then show ?case using read_next_frame_effect [OF read_frame(1)] by (auto intro!: handlers_same [OF read_frame(2)])
next
  case (read_status s cc now e st)
  then show ?case using read_next_status_effect [OF read_status(1)] by (auto intro!: handlers_same [OF read_status(2)])
next
  case (attach_refused s h ref e st)
  show ?case
    by (rule handlers_same [OF attach_refused(4)]) (simp_all add: attach_input_begin_refused [OF attach_refused(2,3)])
next
  case (attach s h ref e)
  then show ?case by (intro handlers_attach)
next
  case (attach_count s h ref)
  then show ?case by (intro handlers_count)
next
  case (detach s h ref)
  then show ?case by (intro handlers_detach)
next
  case (detach_notify s h e n)
  have "handlers_inv (s\<lparr>es_entry := e, es_handlers := (es_handlers s)(h := H_idle)\<rparr>)"
    using detach_notify(1,3) by (intro handlers_inactive) (simp_all add: maybe_notify_inputs [OF detach_notify(2)])
  then show ?case by (rule handlers_same) simp_all
next
  case (input_traffic s r)
  then show ?case by (intro handlers_same [OF input_traffic(2)]) simp_all
qed

section \<open>Contracts\<close>

lemma entry_init_inv: "entry_init s \<Longrightarrow> entry_inv s"
  using flags_init frames_init handlers_init
  by (auto simp: entry_inv_def entry_init_def canceller_ok_def)

lemma entry_step_inv: "entry_inv s \<Longrightarrow> entry_step s t \<Longrightarrow> entry_inv t"
  unfolding entry_inv_def flags_inv_def
  using flags_ok_step counts_step canceller_step frames_step handlers_step flags_inv_def by blast

interpretation entry_machine: system_invariant entry_init entry_step entry_inv
  by unfold_locales (auto intro: entry_init_inv entry_step_inv)

definition entry_outcome :: "entry_system \<Rightarrow> arrow_status option" where
  "entry_outcome s = (if ee_terminal (es_entry s) then Some (ee_terminal_status (es_entry s)) else None)"

interpretation entry_latch: latch entry_init entry_step entry_inv entry_outcome
proof unfold_locales
  fix s t v
  assume "entry_inv s" and "entry_step s t" and "entry_outcome s = Some v"
  then show "entry_outcome t = Some v"
    using terminal_step [of s t] by (auto simp: entry_outcome_def entry_inv_def flags_inv_def split: if_splits)
qed

section \<open>A concrete run\<close>

text \<open>An execution is claimed and started, streams one frame, finishes with success, notifies the
  registry, and its reader sees the end of the stream.\<close>

definition demo_entry :: execution_entry where
  "demo_entry =
     new_execution_entry (empty_execute_request\<lparr>er_max_batch_bytes := 100, er_deadline_unix_ms := 1000\<rparr>) [7]
       new_input_registry"

definition demo_result_frame :: bytes where
  "demo_result_frame = projr (serialize_native_batch_frame 1 [42])"

lemma demo_result_frame: "serialize_native_batch_frame 1 [42] = Inr demo_result_frame"
  by (simp add: demo_result_frame_def serialize_native_batch_frame_def)

definition demo_run0 :: entry_system where
  "demo_run0 =
     \<lparr>es_entry = demo_entry, es_worker = Wk_none, es_cancellers = (\<lambda>_. Cn_idle), es_handlers = (\<lambda>_. H_idle),
      es_placed = [], es_delivered = [], es_eof = None, es_claims = 0, es_starts = 0, es_notifications = 0\<rparr>"

definition demo_run1 :: entry_system where
  "demo_run1 = demo_run0\<lparr>es_entry := demo_entry\<lparr>ee_claimed := True\<rparr>, es_claims := 1\<rparr>"

definition demo_run2 :: entry_system where
  "demo_run2 = demo_run1\<lparr>es_entry := (es_entry demo_run1)\<lparr>ee_worker := Worker_joinable\<rparr>,
     es_worker := Wk_idle, es_starts := 1\<rparr>"

definition demo_run3 :: entry_system where
  "demo_run3 = demo_run2\<lparr>es_entry := (es_entry demo_run2)\<lparr>ee_sequence := 1\<rparr>, es_worker := Wk_put demo_result_frame\<rparr>"

definition demo_run4 :: entry_system where
  "demo_run4 = demo_run3\<lparr>es_entry := (es_entry demo_run3)\<lparr>ee_frame := Some demo_result_frame\<rparr>,
     es_worker := Wk_taken, es_placed := [demo_result_frame]\<rparr>"

definition demo_run5 :: entry_system where
  "demo_run5 = demo_run4\<lparr>es_entry := es_entry demo_run3, es_delivered := [demo_result_frame]\<rparr>"

definition demo_run6 :: entry_system where
  "demo_run6 = demo_run5\<lparr>es_worker := Wk_idle\<rparr>"

definition demo_run7 :: entry_system where
  "demo_run7 = demo_run6\<lparr>es_entry := (es_entry demo_run3)\<lparr>ee_terminal := True, ee_quiesced := True\<rparr>,
     es_worker := Wk_finish_inputs SUCCEEDED\<rparr>"

definition demo_run8 :: entry_system where
  "demo_run8 = demo_run7\<lparr>es_worker := Wk_finish_notify\<rparr>"

definition demo_run9 :: entry_system where
  "demo_run9 = demo_run8\<lparr>es_entry := (es_entry demo_run8)\<lparr>ee_terminal_notified := True\<rparr>,
     es_worker := Wk_end, es_notifications := 1\<rparr>"

definition demo_run10 :: entry_system where
  "demo_run10 = demo_run9\<lparr>es_eof := Some St_OK\<rparr>"

lemmas demo_run_defs = demo_run0_def demo_run1_def demo_run2_def demo_run3_def demo_run4_def demo_run5_def
  demo_run6_def demo_run7_def demo_run8_def demo_run9_def demo_run10_def demo_entry_def
  new_execution_entry_def new_input_registry_def empty_execute_request_def

lemma demo_steps:
  "entry_step demo_run0 demo_run1" "entry_step demo_run1 demo_run2" "entry_step demo_run2 demo_run3"
  "entry_step demo_run3 demo_run4" "entry_step demo_run4 demo_run5" "entry_step demo_run5 demo_run6"
  "entry_step demo_run6 demo_run7" "entry_step demo_run7 demo_run8" "entry_step demo_run8 demo_run9"
  "entry_step demo_run9 demo_run10"
proof -
  show "entry_step demo_run0 demo_run1"
    using entry_step.claim [of demo_run0 "demo_entry\<lparr>ee_claimed := True\<rparr>" True]
    by (simp add: demo_run_defs ee_claim_def)
  show "entry_step demo_run1 demo_run2"
    using entry_step.start [of demo_run1 "es_entry demo_run2" True]
    by (simp add: demo_run_defs ee_start_def worker_joinable_def)
  have "publish_frame (es_entry demo_run2) [42] = Inr (es_entry demo_run3, demo_result_frame)"
    by (simp add: publish_frame_def demo_run_defs demo_result_frame)
  from entry_step.publish [OF _ this] show "entry_step demo_run2 demo_run3" by (simp add: demo_run_defs)
  show "entry_step demo_run3 demo_run4"
    using entry_step.publish_put [of demo_run3 demo_result_frame "es_entry demo_run4"]
    by (simp add: demo_run_defs publish_ready_def publish_put_def)
  have "read_next_poll (es_entry demo_run4) False 0 = (es_entry demo_run5, Read_frame demo_result_frame)"
    by (simp add: read_next_poll_def demo_run_defs)
  from entry_step.read_frame [OF this] show "entry_step demo_run4 demo_run5" by (simp add: demo_run_defs)
  show "entry_step demo_run5 demo_run6"
    using entry_step.publish_return [of demo_run5] by (simp add: demo_run_defs publish_ready_def)
  have "run_result Run_returned = (St_OK, SUCCEEDED, False)" by (simp add: run_result_def)
  from entry_step.finish [OF _ this, of demo_run6] show "entry_step demo_run6 demo_run7"
    by (simp add: demo_run_defs finish_begin_def)
  show "entry_step demo_run7 demo_run8"
    using entry_step.finish_inputs [of demo_run7 SUCCEEDED]
    by (simp add: demo_run_defs finish_inputs_def reg_mark_all_not_needed_def)
  have "maybe_notify_terminal (es_entry demo_run8) = (es_entry demo_run9, True)"
    by (simp add: maybe_notify_terminal_def demo_run_defs)
  from entry_step.finish_notify [OF _ this] show "entry_step demo_run8 demo_run9" by (simp add: demo_run_defs)
  have "read_next_poll (es_entry demo_run9) False 0 = (es_entry demo_run9, Read_status St_OK)"
    by (simp add: read_next_poll_def demo_run_defs)
  from entry_step.read_status [OF this] show "entry_step demo_run9 demo_run10" by (simp add: demo_run_defs)
qed

lemma demo_run0_init: "entry_init demo_run0"
proof -
  have "reg_active_handlers new_input_registry = 0 \<and> finite (dom (reg_inputs new_input_registry)) \<and>
      reg_size new_input_registry \<le> k_max_stream_inputs"
    by (simp add: new_input_registry_def reg_size_def)
  moreover have "\<forall>r i. reg_inputs new_input_registry r = Some i \<longrightarrow> \<not> si_attached i"
    by (simp add: new_input_registry_def)
  ultimately show ?thesis unfolding entry_init_def demo_run0_def demo_entry_def by auto
qed

lemma demo_run7_reachable: "reachable entry_init entry_step demo_run7"
  using demo_steps demo_run0_init by (meson reachable.intros)

lemma demo_run_reachable: "reachable entry_init entry_step demo_run10"
  using demo_steps demo_run7_reachable by (meson reachable.intros)

section \<open>Properties of an execution\<close>

text \<open>
  C4: Once an execution is terminal, no later cancel, GPU failure, deadline or finish changes that
  or its terminal status: the first terminal status wins in every interleaving.
\<close>

theorem entry_first_terminal_wins:
  assumes "reachable entry_init entry_step s" and "entry_step\<^sup>*\<^sup>* s t"
    and "ee_terminal (es_entry s)"
  shows "ee_terminal (es_entry t) \<and> ee_terminal_status (es_entry t) = ee_terminal_status (es_entry s)"
  using entry_latch.latched_forever [OF assms(2,1)] assms(3) by (auto simp: entry_outcome_def split: if_splits)

theorem entry_first_terminal_wins_witness: "ee_terminal_status (es_entry demo_run10) = St_OK"
proof -
  have "entry_step\<^sup>*\<^sup>* demo_run7 demo_run10" using demo_steps by (meson rtranclp.intros)
  moreover have "ee_terminal (es_entry demo_run7)" by (simp add: demo_run_defs)
  ultimately show ?thesis
    using entry_first_terminal_wins [OF demo_run7_reachable] by (simp add: demo_run_defs)
qed

text \<open>
  C5: A quiesced execution is terminal, has no frame in its result slot, and its worker thread was
  never started or has left the engine.
\<close>

theorem entry_quiesced_safe:
  assumes "reachable entry_init entry_step s" and "ee_quiesced (es_entry s)"
  shows "ee_terminal (es_entry s) \<and> ee_frame (es_entry s) = None \<and>
    (es_worker s = Wk_none \<or> worker_finished (es_worker s))"
proof -
  note inv = entry_machine.reachable_inv [OF assms(1)]
  then have "flags_ok (es_entry s) (es_worker s)" and "frames_inv s"
    by (simp_all add: entry_inv_def flags_inv_def)
  with assms(2) show ?thesis using no_frame by (auto simp: flags_ok_def)
qed

theorem entry_quiesced_safe_witness: "ee_frame (es_entry demo_run7) = None \<and> worker_finished (es_worker demo_run7)"
  using entry_quiesced_safe [OF demo_run7_reachable] by (simp add: demo_run_defs)

text \<open>
  C6: An execution is claimed at most once, constructs at most one worker thread and only after a
  claim, and its terminal callback runs at most once and only after it is quiesced.
\<close>

theorem entry_counted_once:
  assumes "reachable entry_init entry_step s"
  shows "es_claims s \<le> 1 \<and> es_starts s \<le> 1 \<and> es_starts s \<le> es_claims s \<and> es_notifications s \<le> 1 \<and>
    (es_notifications s = 1 \<longrightarrow> ee_quiesced (es_entry s))"
proof -
  have "flags_ok (es_entry s) (es_worker s)" and "counts_ok s"
    using entry_machine.reachable_inv [OF assms] by (simp_all add: entry_inv_def flags_inv_def)
  then show ?thesis by (auto simp: flags_ok_def counts_ok_def)
qed

theorem entry_counted_once_witness:
  "es_starts demo_run10 = 1 \<and> es_starts demo_run10 \<le> es_claims demo_run10 \<and> es_notifications demo_run10 \<le> 1"
  using entry_counted_once [OF demo_run_reachable] by (simp add: demo_run_defs)

text \<open>
  C3: If the reader of an execution ends with status OK, it was handed every frame that was ever
  placed in the result slot, in order, and the k-th frame is the MOB1 serialization with sequence
  number k of a payload within the negotiated max_batch_bytes.
\<close>

theorem entry_results_complete:
  assumes "reachable entry_init entry_step s" and "es_eof s = Some St_OK"
  shows "es_delivered s = es_placed s \<and>
    (\<forall>k < length (es_delivered s). \<exists>payload.
       serialize_native_batch_frame (of_nat (Suc k)) payload = Inr (es_delivered s ! k) \<and>
       length payload \<le> unat (er_max_batch_bytes (ee_request (es_entry s))))"
proof -
  have inv: "frames_inv s" using entry_machine.reachable_inv [OF assms(1)] by (simp add: entry_inv_def)
  then have eof: "ee_terminal (es_entry s)" "ee_terminal_status (es_entry s) = St_OK"
    using assms(2) by (auto simp: frames_inv_def Let_def)
  then have "ee_frame (es_entry s) = None" using no_frame [OF inv] by simp
  with inv eof have "es_placed s = es_delivered s" by (auto simp: frames_inv_def Let_def)
  moreover have "\<forall>k < length (es_placed s). frame_of (es_entry s) (Suc k) (es_placed s ! k)"
    using inv by (simp add: frames_inv_def Let_def)
  ultimately show ?thesis by (simp add: frame_of_def)
qed

theorem entry_results_complete_witness: "es_delivered demo_run10 = [demo_result_frame] \<and> es_delivered demo_run10 = es_placed demo_run10"
  using entry_results_complete [OF demo_run_reachable] by (simp add: demo_run_defs)

text \<open>
  C7: At any time the frames delivered to the reader are a prefix of the frames placed in the
  slot, with at most one frame in between, and placed frames carry contiguous sequence numbers
  from 1, also when the execution is cancelled.
\<close>

theorem entry_delivery_order:
  assumes "reachable entry_init entry_step s"
  shows "(\<exists>rest. es_placed s = es_delivered s @ rest \<and> length rest \<le> 1) \<and>
    (\<forall>k < length (es_placed s). \<exists>payload.
       serialize_native_batch_frame (of_nat (Suc k)) payload = Inr (es_placed s ! k))"
proof -
  have inv: "frames_inv s" using entry_machine.reachable_inv [OF assms] by (simp add: entry_inv_def)
  then have "\<exists>rest. es_placed s = es_delivered s @ rest \<and> length rest \<le> 1"
    by (cases "ee_frame (es_entry s)") (auto simp: frames_inv_def Let_def)
  then show ?thesis using inv by (auto simp: frames_inv_def frame_of_def Let_def)
qed

theorem entry_delivery_order_witness: "\<exists>rest. es_placed demo_run10 = es_delivered demo_run10 @ rest \<and> length rest \<le> 1"
  using entry_delivery_order [OF demo_run_reachable] by blast

lemma active_handlers_bound:
  assumes "handlers_inv s"
  shows "card (active_set s) \<le> k_max_stream_inputs"
proof -
  let ?r = "ee_inputs (es_entry s)"
  define key where "key h = the (holds (es_handlers s h))" for h
  have held: "holds (es_handlers s h) = Some (key h)" if "h \<in> active_set s" for h
    using that by (auto simp: active_set_def holds_def key_def)
  have "inj_on key (active_set s)"
  proof (rule inj_onI)
    fix h g assume "h \<in> active_set s" and "g \<in> active_set s" and "key h = key g"
    then have "holds (es_handlers s h) = Some (key h)" and "holds (es_handlers s g) = Some (key h)"
      using held by auto
    then show "h = g" using assms unfolding handlers_inv_def Let_def by blast
  qed
  moreover have "key ` active_set s \<subseteq> dom (reg_inputs ?r)"
  proof
    fix k assume "k \<in> key ` active_set s"
    then obtain h where "holds (es_handlers s h) = Some k" using held by auto
    then show "k \<in> dom (reg_inputs ?r)" by (auto elim: handlers_held [OF assms])
  qed
  moreover have "finite (dom (reg_inputs ?r))" using assms by (simp add: handlers_inv_def Let_def)
  ultimately have "card (active_set s) \<le> card (dom (reg_inputs ?r))" by (metis card_inj_on_le)
  also have "\<dots> \<le> k_max_stream_inputs" using assms by (simp add: handlers_inv_def reg_size_def Let_def)
  finally show ?thesis .
qed

text \<open>
  C8: The 64-bit handler counter of an execution equals the number of counted upload handlers,
  which is at most 16, so when the exit test of cancel_and_join holds no counted handler is active
  and the worker has left the engine.
\<close>

theorem entry_quiet_counts_handlers:
  assumes "reachable entry_init entry_step s"
  shows "unat (reg_active_handlers (ee_inputs (es_entry s))) = card (active_set s) \<and>
    card (active_set s) \<le> 16 \<and>
    (ee_is_quiet (es_entry s) \<longrightarrow> active_set s = {} \<and> (es_worker s = Wk_none \<or> worker_finished (es_worker s)))"
proof -
  note inv = entry_machine.reachable_inv [OF assms]
  then have h: "handlers_inv s" and f: "flags_ok (es_entry s) (es_worker s)"
    by (simp_all add: entry_inv_def flags_inv_def)
  have le: "card (active_set s) \<le> 16"
    using active_handlers_bound [OF h] by (simp add: k_max_stream_inputs_def)
  have "reg_active_handlers (ee_inputs (es_entry s)) = of_nat (card (active_set s))" and fin: "finite (active_set s)"
    using h by (simp_all add: handlers_inv_def Let_def)
  then have n: "unat (reg_active_handlers (ee_inputs (es_entry s))) = card (active_set s)"
    using le by (simp add: unat_of_nat_u64)
  have "active_set s = {}" if "ee_is_quiet (es_entry s)"
    using that n fin by (simp add: ee_is_quiet_def)
  with n le f show ?thesis by (auto simp: ee_is_quiet_def flags_ok_def)
qed

theorem entry_quiet_counts_handlers_witness: "active_set demo_run10 = {}"
  using entry_quiet_counts_handlers [OF demo_run_reachable] by (simp add: ee_is_quiet_def demo_run_defs)

end
