(* ===== verification/Ticket_Registry.thy ===== *)
theory Ticket_Registry
  imports Execution_Entry Admission
begin

text \<open>
  The registry of executions in \<^verbatim>\<open>flight_runtime.cpp\<close> (class \<^verbatim>\<open>ticket_registry\<close>): tickets, idempotency
  records, reservations, admission and shutdown.  One definition is one critical section of the
  registry's \<^verbatim>\<open>mutex_\<close>; the calls on an entry happen outside it and are those of \<open>Execution_Entry\<close>.
\<close>

section \<open>State\<close>

record idempotency_record =
  ir_fingerprint :: bytes
  ir_ticket :: bytes
  ir_deadline_unix_ms :: u64
  ir_preparing :: bool
  ir_cancel_requested :: bool

record ticket_registry =
  tk_admission :: stream_admission_controller
  tk_entries :: "bytes \<rightharpoonup> execution_entry"
  tk_idempotency :: "bytes \<rightharpoonup> idempotency_record"
  tk_reserved :: u64
  tk_stopped :: bool
  tk_gpu_unavailable :: bool

definition new_ticket_registry :: "u64 \<Rightarrow> ticket_registry" where
  "new_ticket_registry capacity =
     \<lparr>tk_admission = new_controller capacity, tk_entries = Map.empty, tk_idempotency = Map.empty,
      tk_reserved = 0, tk_stopped = False, tk_gpu_unavailable = False\<rparr>"

definition ee_idempotency_key :: "execution_entry \<Rightarrow> bytes" where
  "ee_idempotency_key e = er_idempotency_key (ee_request e)"

definition resource_exhausted :: "string \<Rightarrow> arrow_status" where
  "resource_exhausted m = St_Flight F_Unavailable m ''RESOURCE_EXHAUSTED''"

definition stopping_status :: "bool \<Rightarrow> arrow_status" where
  "stopping_status gpu =
     St_Flight F_Unavailable (if gpu then gpu_text else ''sidecar is stopping'')
       (if gpu then ''GPU_DEVICE_UNAVAILABLE'' else '''')"

definition state_invalid_status :: arrow_status where
  "state_invalid_status =
     St_Flight F_Internal ''idempotent request lost its prepared ticket'' ''IDEMPOTENCY_STATE_INVALID''"

section \<open>Preparing\<close>

datatype prepare_answer =
    Prep_return arrow_status
  | Prep_wait u64
  | Prep_existing execution_entry
  | Prep_reserved lease

text \<open>One pass of the loop at the start of \<^verbatim>\<open>prepare\<close>; \<open>max_active\<close> is \<^verbatim>\<open>config_.max_active_tickets\<close>.  The
  charge may throw.\<close>

definition prepare_poll :: "nat \<Rightarrow> ticket_registry \<Rightarrow> execute_request \<Rightarrow> (ticket_registry \<times> prepare_answer) res" where
  "prepare_poll max_active r request =
     (if tk_stopped r then Inr (r, Prep_return (stopping_status (tk_gpu_unavailable r)))
      else
        case tk_idempotency r (er_idempotency_key request) of
          None \<Rightarrow>
            if card (dom (tk_entries r)) + unat (tk_reserved r) \<ge> max_active
            then Inr (r, Prep_return (resource_exhausted ''sidecar active ticket limit reached''))
            else
              bindR (stream_execution_charge request k_max_stream_inputs) (\<lambda>charge.
                case try_acquire (tk_admission r) charge of
                  (adm, None) \<Rightarrow>
                    Inr (r\<lparr>tk_admission := adm\<rparr>,
                         Prep_return (resource_exhausted ''sidecar streamed-input capacity exhausted''))
                | (adm, Some l) \<Rightarrow>
                    Inr (r\<lparr>tk_admission := adm, tk_reserved := tk_reserved r + 1,
                           tk_idempotency := (tk_idempotency r)(er_idempotency_key request \<mapsto>
                             \<lparr>ir_fingerprint = er_fingerprint request, ir_ticket = [],
                              ir_deadline_unix_ms = er_deadline_unix_ms request, ir_preparing = True,
                              ir_cancel_requested = False\<rparr>)\<rparr>,
                         Prep_reserved l))
        | Some rec \<Rightarrow>
            if ir_fingerprint rec \<noteq> er_fingerprint request
            then Inr (r, Prep_return (St_Flight F_Failed
                   ''idempotency key was reused for a different request'' ''IDEMPOTENCY_CONFLICT''))
            else if ir_preparing rec then Inr (r, Prep_wait (ir_deadline_unix_ms rec))
            else if ir_cancel_requested rec
            then Inr (r, Prep_return (St_Flight F_Failed
                   ''idempotent request is already terminal'' ''IDEMPOTENCY_TERMINAL''))
            else
              (case tk_entries r (ir_ticket rec) of
                 None \<Rightarrow> Inr (r, Prep_return state_invalid_status)
               | Some e \<Rightarrow> Inr (r, Prep_existing e)))"

text \<open>The wait ran into the deadline.\<close>

definition prepare_timeout :: arrow_status where
  "prepare_timeout =
     St_Flight F_TimedOut ''idempotent request did not finish preparing before its deadline''
       ''IDEMPOTENCY_IN_PROGRESS''"

definition prepare_existing :: "execution_entry \<Rightarrow> execution_entry arrow_result" where
  "prepare_existing e =
     (if \<not> ee_replayable e
      then Inl (St_Flight F_Failed ''idempotent request ticket was already claimed'' ''IDEMPOTENCY_ALREADY_CLAIMED'')
      else Inr e)"

definition tk_contains :: "ticket_registry \<Rightarrow> bytes \<Rightarrow> bool" where
  "tk_contains r ticket \<longleftrightarrow> tk_entries r ticket \<noteq> None"

definition release_reservation :: "ticket_registry \<Rightarrow> bytes \<Rightarrow> ticket_registry" where
  "release_reservation r key =
     r\<lparr>tk_reserved := tk_reserved r - 1, tk_idempotency := (tk_idempotency r)(key := None)\<rparr>"

text \<open>The section that publishes a prepared entry.  \<^verbatim>\<open>emplace\<close> keeps an entry that is already there;
  \<^verbatim>\<open>at\<close> throws when the record is gone.\<close>

datatype register_result =
    Reg_stopping bool
  | Reg_done bool

definition prepare_register :: "ticket_registry \<Rightarrow> execution_entry \<Rightarrow> (ticket_registry \<times> register_result) res" where
  "prepare_register r e =
     (let key = ee_idempotency_key e; r1 = r\<lparr>tk_reserved := tk_reserved r - 1\<rparr> in
      if tk_stopped r1
      then Inr (r1\<lparr>tk_idempotency := (tk_idempotency r1)(key := None)\<rparr>, Reg_stopping (tk_gpu_unavailable r1))
      else
        let r2 = (if tk_entries r1 (ee_ticket e) = None
                  then r1\<lparr>tk_entries := (tk_entries r1)(ee_ticket e \<mapsto> e)\<rparr> else r1) in
        case tk_idempotency r2 key of
          None \<Rightarrow> Inl (Runtime_error ''unordered_map::at'')
        | Some rec \<Rightarrow>
            Inr (r2\<lparr>tk_idempotency := (tk_idempotency r2)(key \<mapsto>
                      rec\<lparr>ir_ticket := ee_ticket e, ir_preparing := False\<rparr>)\<rparr>,
                 Reg_done (ir_cancel_requested rec)))"

text \<open>What \<^verbatim>\<open>prepare\<close> returns after that section.\<close>

definition prepare_result :: "execution_entry \<Rightarrow> register_result \<Rightarrow> execution_entry arrow_result" where
  "prepare_result e res =
     (case res of
        Reg_stopping gpu \<Rightarrow> Inl (stopping_status gpu)
      | Reg_done cancelled \<Rightarrow>
          if cancelled
          then Inl (St_Flight F_Cancelled ''idempotent request was cancelled while preparing'' ''CANCELLED'')
          else Inr e)"

section \<open>Looking up, claiming and cancelling\<close>

definition gpu_healthy :: "ticket_registry \<Rightarrow> bool" where
  "gpu_healthy r \<longleftrightarrow> \<not> tk_gpu_unavailable r"

definition tk_lookup :: "ticket_registry \<Rightarrow> bytes \<Rightarrow> execution_entry option" where
  "tk_lookup r ticket = (if tk_stopped r then None else tk_entries r ticket)"

text \<open>\<^verbatim>\<open>claim\<close>: the lookup, then \<^verbatim>\<open>claim()\<close> of the entry.\<close>

definition tk_claim :: "ticket_registry \<Rightarrow> bytes \<Rightarrow> ticket_registry \<times> execution_entry option" where
  "tk_claim r ticket =
     (case tk_lookup r ticket of
        None \<Rightarrow> (r, None)
      | Some e \<Rightarrow>
          (case ee_claim e of (e', ok) \<Rightarrow>
             (r\<lparr>tk_entries := (tk_entries r)(ticket \<mapsto> e')\<rparr>, if ok then Some e' else None)))"

datatype cancel_poll = Cancel_not_found | Cancel_entry execution_entry | Cancel_wait u64

definition cancel_ticket_poll :: "ticket_registry \<Rightarrow> bytes \<Rightarrow> cancel_poll" where
  "cancel_ticket_poll r ticket =
     (case tk_entries r ticket of None \<Rightarrow> Cancel_not_found | Some e \<Rightarrow> Cancel_entry e)"

text \<open>One pass of the loop of \<^verbatim>\<open>cancel_and_join_idempotency\<close>; it marks the record first.\<close>

definition cancel_key_poll :: "ticket_registry \<Rightarrow> bytes \<Rightarrow> ticket_registry \<times> cancel_poll" where
  "cancel_key_poll r key =
     (if tk_stopped r then (r, Cancel_not_found)
      else
        case tk_idempotency r key of
          None \<Rightarrow> (r, Cancel_not_found)
        | Some rec \<Rightarrow>
            let r' = r\<lparr>tk_idempotency := (tk_idempotency r)(key \<mapsto> rec\<lparr>ir_cancel_requested := True\<rparr>)\<rparr> in
            if \<not> ir_preparing rec
            then (r', case tk_entries r (ir_ticket rec) of None \<Rightarrow> Cancel_not_found | Some e \<Rightarrow> Cancel_entry e)
            else (r', Cancel_wait (ir_deadline_unix_ms rec)))"

section \<open>Removal, deadlines and shutdown\<close>

definition tk_remove :: "ticket_registry \<Rightarrow> bytes \<Rightarrow> ticket_registry" where
  "tk_remove r ticket =
     (case tk_entries r ticket of
        None \<Rightarrow> r
      | Some e \<Rightarrow>
          r\<lparr>tk_idempotency := (tk_idempotency r)(ee_idempotency_key e := None),
            tk_entries := (tk_entries r)(ticket := None)\<rparr>)"

text \<open>The tickets that one round of \<^verbatim>\<open>reap\<close> cancels.\<close>

definition reap_expired :: "ticket_registry \<Rightarrow> u64 \<Rightarrow> bytes set" where
  "reap_expired r now =
     (if tk_stopped r then {}
      else {t. \<exists>e. tk_entries r t = Some e \<and> er_deadline_unix_ms (ee_request e) \<le> now})"

text \<open>The flag says that this call sealed the registry; then every entry is failed.\<close>

definition seal_gpu_unavailable :: "ticket_registry \<Rightarrow> ticket_registry \<times> bool" where
  "seal_gpu_unavailable r =
     (if tk_gpu_unavailable r then (r, False)
      else (r\<lparr>tk_gpu_unavailable := True, tk_stopped := True\<rparr>, True))"

definition stop_admission :: "ticket_registry \<Rightarrow> ticket_registry" where
  "stop_admission r = (if \<not> tk_stopped r then r\<lparr>tk_stopped := True\<rparr> else r)"

text \<open>The last section of \<^verbatim>\<open>shutdown\<close>.\<close>

definition shutdown_clear :: "ticket_registry \<Rightarrow> ticket_registry" where
  "shutdown_clear r = r\<lparr>tk_entries := Map.empty, tk_idempotency := Map.empty\<rparr>"

end
