(* ===== verification/Ticket_Registry_Correct.thy ===== *)
theory Ticket_Registry_Correct
  imports Ticket_Registry Execution_Entry_Correct
begin

text \<open>
  The registry under every interleaving of preparing threads, terminal callbacks, cancellations, the
  GPU seal and shutdown.  The lease objects of the admission controller are explicit: a preparing
  thread holds one, a registered entry holds one, and a lease that nobody holds any more is destroyed
  some time later, when the last reference to its entry goes away.
\<close>

section \<open>The system\<close>

text \<open>A preparing thread constructs its entry, holds a constructed entry that it has not published yet,
  or is unwinding an exception of the constructor.\<close>

datatype builder =
    B_idle
  | B_building execute_request nat
  | B_built execution_entry nat
  | B_failed bytes

record registry_system =
  rs_registry :: ticket_registry
  rs_builders :: "nat \<Rightarrow> builder"
  rs_leases :: "nat \<rightharpoonup> lease"
  rs_owner :: "bytes \<rightharpoonup> nat"

definition registry_init :: "u64 \<Rightarrow> registry_system \<Rightarrow> bool" where
  "registry_init capacity s \<longleftrightarrow>
     rs_registry s = new_ticket_registry capacity \<and> rs_builders s = (\<lambda>_. B_idle) \<and>
     rs_leases s = Map.empty \<and> rs_owner s = Map.empty"

definition builder_key :: "builder \<Rightarrow> bytes option" where
  "builder_key b =
     (case b of B_idle \<Rightarrow> None | B_building q _ \<Rightarrow> Some (er_idempotency_key q)
      | B_built e _ \<Rightarrow> Some (ee_idempotency_key e) | B_failed k \<Rightarrow> Some k)"

definition builder_lease :: "builder \<Rightarrow> nat option" where
  "builder_lease b = (case b of B_building _ i \<Rightarrow> Some i | B_built _ i \<Rightarrow> Some i | _ \<Rightarrow> None)"

definition builder_ticket :: "builder \<Rightarrow> bytes option" where
  "builder_ticket b = (case b of B_built e _ \<Rightarrow> Some (ee_ticket e) | _ \<Rightarrow> None)"

text \<open>A ticket drawn from 32 random bytes that no entry and no other preparing thread has.  The code
  checks the first part; the second is what the random source provides.\<close>

definition fresh_ticket :: "registry_system \<Rightarrow> bytes \<Rightarrow> bool" where
  "fresh_ticket s t \<longleftrightarrow>
     \<not> tk_contains (rs_registry s) t \<and> (\<forall>b. builder_ticket (rs_builders s b) \<noteq> Some t)"

definition lease_held :: "registry_system \<Rightarrow> nat \<Rightarrow> bool" where
  "lease_held s i \<longleftrightarrow> (\<exists>b. builder_lease (rs_builders s b) = Some i) \<or> (\<exists>t. rs_owner s t = Some i)"

text \<open>What the steps of an execution never change.\<close>

definition same_execution :: "execution_entry \<Rightarrow> execution_entry \<Rightarrow> bool" where
  "same_execution e e' \<longleftrightarrow>
     ee_ticket e' = ee_ticket e \<and> ee_request e' = ee_request e \<and>
     dom (reg_inputs (ee_inputs e')) = dom (reg_inputs (ee_inputs e))"

inductive registry_step :: "nat \<Rightarrow> registry_system \<Rightarrow> registry_system \<Rightarrow> bool" for max_active where
  poll_reserves:
    "\<lbrakk> rs_builders s b = B_idle; prepare_poll max_active (rs_registry s) q = Inr (r, Prep_reserved l);
       rs_leases s i = None \<rbrakk> \<Longrightarrow>
     registry_step max_active s
       (s\<lparr>rs_registry := r, rs_builders := (rs_builders s)(b := B_building q i), rs_leases := (rs_leases s)(i \<mapsto> l)\<rparr>)"
| poll_returns:
    "\<lbrakk> prepare_poll max_active (rs_registry s) q = Inr (r, Prep_return st) \<rbrakk> \<Longrightarrow>
     registry_step max_active s (s\<lparr>rs_registry := r\<rparr>)"
| build_throws:
    "rs_builders s b = B_building q i \<Longrightarrow>
     registry_step max_active s (s\<lparr>rs_builders := (rs_builders s)(b := B_failed (er_idempotency_key q))\<rparr>)"
| build_unwinds:
    "rs_builders s b = B_failed key \<Longrightarrow>
     registry_step max_active s
       (s\<lparr>rs_registry := release_reservation (rs_registry s) key, rs_builders := (rs_builders s)(b := B_idle)\<rparr>)"
| build_returns:
    "\<lbrakk> rs_builders s b = B_building q i; ee_request e = q; fresh_ticket s (ee_ticket e); rs_leases s i = Some l;
       stream_execution_charge q (reg_size (ee_inputs e)) = Inr charge;
       lease_shrink (tk_admission (rs_registry s)) l charge = Inr (c, l') \<rbrakk> \<Longrightarrow>
     registry_step max_active s
       (s\<lparr>rs_registry := (rs_registry s)\<lparr>tk_admission := c\<rparr>,
          rs_builders := (rs_builders s)(b := B_built e i), rs_leases := (rs_leases s)(i \<mapsto> l')\<rparr>)"
| register_stopping:
    "\<lbrakk> rs_builders s b = B_built e i; prepare_register (rs_registry s) e = Inr (r, Reg_stopping gpu) \<rbrakk> \<Longrightarrow>
     registry_step max_active s (s\<lparr>rs_registry := r, rs_builders := (rs_builders s)(b := B_idle)\<rparr>)"
| register_done:
    "\<lbrakk> rs_builders s b = B_built e i; prepare_register (rs_registry s) e = Inr (r, Reg_done cancelled) \<rbrakk> \<Longrightarrow>
     registry_step max_active s
       (s\<lparr>rs_registry := r, rs_builders := (rs_builders s)(b := B_idle), rs_owner := (rs_owner s)(ee_ticket e \<mapsto> i)\<rparr>)"
| entry_moves:
    "\<lbrakk> tk_entries (rs_registry s) t = Some e; same_execution e e' \<rbrakk> \<Longrightarrow>
     registry_step max_active s
       (s\<lparr>rs_registry := (rs_registry s)\<lparr>tk_entries := (tk_entries (rs_registry s))(t \<mapsto> e')\<rparr>\<rparr>)"
| removes:
    "registry_step max_active s
       (s\<lparr>rs_registry := tk_remove (rs_registry s) t, rs_owner := (rs_owner s)(t := None)\<rparr>)"
| cancel_key:
    "cancel_key_poll (rs_registry s) key = (r, res) \<Longrightarrow> registry_step max_active s (s\<lparr>rs_registry := r\<rparr>)"
| seal:
    "seal_gpu_unavailable (rs_registry s) = (r, first) \<Longrightarrow> registry_step max_active s (s\<lparr>rs_registry := r\<rparr>)"
| stop:
    "registry_step max_active s (s\<lparr>rs_registry := stop_admission (rs_registry s)\<rparr>)"
| clear:
    "tk_stopped (rs_registry s) \<Longrightarrow>
     registry_step max_active s (s\<lparr>rs_registry := shutdown_clear (rs_registry s), rs_owner := Map.empty\<rparr>)"
| lease_dies:
    "\<lbrakk> rs_leases s i = Some l; \<not> lease_held s i; lease_reset (tk_admission (rs_registry s)) l = (c, l') \<rbrakk> \<Longrightarrow>
     registry_step max_active s
       (s\<lparr>rs_registry := (rs_registry s)\<lparr>tk_admission := c\<rparr>, rs_leases := (rs_leases s)(i := None)\<rparr>)"

section \<open>Refinement of the admission machine\<close>

definition registry_admission :: "registry_system \<Rightarrow> admission_state" where
  "registry_admission s = \<lparr>adm_controller = tk_admission (rs_registry s), adm_leases = rs_leases s\<rparr>"

text \<open>What the operations do to the controller.\<close>

lemma prepare_poll_reserved:
  assumes "prepare_poll max_active r q = Inr (r', Prep_reserved l)"
  obtains charge adm where "stream_execution_charge q k_max_stream_inputs = Inr charge"
    and "try_acquire (tk_admission r) charge = (adm, Some l)" and "\<not> tk_stopped r"
    and "tk_idempotency r (er_idempotency_key q) = None"
    and "card (dom (tk_entries r)) + unat (tk_reserved r) < max_active"
    and "r' = r\<lparr>tk_admission := adm, tk_reserved := tk_reserved r + 1,
      tk_idempotency := (tk_idempotency r)(er_idempotency_key q \<mapsto>
        \<lparr>ir_fingerprint = er_fingerprint q, ir_ticket = [], ir_deadline_unix_ms = er_deadline_unix_ms q,
         ir_preparing = True, ir_cancel_requested = False\<rparr>)\<rparr>"
proof -
  from assms have live: "\<not> tk_stopped r" and none: "tk_idempotency r (er_idempotency_key q) = None"
    and room: "card (dom (tk_entries r)) + unat (tk_reserved r) < max_active"
    by (auto simp: prepare_poll_def split: if_split_asm option.split_asm)
  then obtain charge where charge: "stream_execution_charge q k_max_stream_inputs = Inr charge"
    using assms by (auto simp: prepare_poll_def)
  obtain adm x where adm: "try_acquire (tk_admission r) charge = (adm, x)" by (metis surj_pair)
  show thesis
    using assms that [OF charge _ live none room] live none room charge adm
    by (cases x) (auto simp: prepare_poll_def not_le)
qed

lemma prepare_poll_returns:
  assumes "prepare_poll max_active r q = Inr (r', Prep_return st)"
  shows "r' = r \<or> (\<exists>charge adm. try_acquire (tk_admission r) charge = (adm, None) \<and> r' = r\<lparr>tk_admission := adm\<rparr>)"
  using assms
  by (auto simp: prepare_poll_def split: if_split_asm option.split_asm prod.split_asm) blast+

lemma keeps_admission [simp]:
  "tk_admission (release_reservation r key) = tk_admission r" "tk_admission (tk_remove r t) = tk_admission r"
  "tk_admission (stop_admission r) = tk_admission r" "tk_admission (shutdown_clear r) = tk_admission r"
  by (simp_all add: release_reservation_def tk_remove_def stop_admission_def shutdown_clear_def split: option.split)

lemma cancel_key_poll_fields:
  assumes "cancel_key_poll r key = (r', res)"
  shows "r' = r \<or> (\<exists>rec. tk_idempotency r key = Some rec \<and> \<not> tk_stopped r \<and>
    r' = r\<lparr>tk_idempotency := (tk_idempotency r)(key \<mapsto> rec\<lparr>ir_cancel_requested := True\<rparr>)\<rparr>)"
  using assms by (auto simp: cancel_key_poll_def Let_def split: if_split_asm option.split_asm)

lemma seal_fields:
  assumes "seal_gpu_unavailable r = (r', first)"
  shows "r' = r \<or> r' = r\<lparr>tk_gpu_unavailable := True, tk_stopped := True\<rparr>"
  using assms by (auto simp: seal_gpu_unavailable_def split: if_split_asm)

lemma prepare_register_stopping:
  assumes "prepare_register r e = Inr (r', Reg_stopping gpu)"
  shows "tk_stopped r \<and> gpu = tk_gpu_unavailable r \<and>
    r' = r\<lparr>tk_reserved := tk_reserved r - 1, tk_idempotency := (tk_idempotency r)(ee_idempotency_key e := None)\<rparr>"
  using assms by (auto simp: prepare_register_def Let_def split: if_split_asm option.split_asm)

lemma prepare_register_done:
  assumes "prepare_register r e = Inr (r', Reg_done cancelled)"
  obtains rec where "\<not> tk_stopped r" and "tk_idempotency r (ee_idempotency_key e) = Some rec"
    and "cancelled = ir_cancel_requested rec"
    and "r' = r\<lparr>tk_reserved := tk_reserved r - 1,
      tk_entries := (if tk_entries r (ee_ticket e) = None then (tk_entries r)(ee_ticket e \<mapsto> e) else tk_entries r),
      tk_idempotency := (tk_idempotency r)(ee_idempotency_key e \<mapsto>
        rec\<lparr>ir_ticket := ee_ticket e, ir_preparing := False\<rparr>)\<rparr>"
  using assms by (auto simp: prepare_register_def Let_def split: if_split_asm option.split_asm)

lemma registry_step_admission:
  assumes "registry_step max_active s t"
  shows "admission_step\<^sup>*\<^sup>* (registry_admission s) (registry_admission t)"
  using assms
proof (induction rule: registry_step.induct)
  case (poll_reserves s b q r l i)
  from poll_reserves(2) obtain charge adm where "try_acquire (tk_admission (rs_registry s)) charge = (adm, Some l)"
    and "tk_admission r = adm" by (rule prepare_poll_reserved) simp
  then show ?case
    using admission_step.acquire [of "registry_admission s" i charge adm l] poll_reserves(3)
    by (auto simp: registry_admission_def)
next
  case (poll_returns s q r st)
  from prepare_poll_returns [OF this] show ?case
  proof (elim disjE exE conjE)
    fix charge adm
    assume "try_acquire (tk_admission (rs_registry s)) charge = (adm, None)"
      and "r = (rs_registry s)\<lparr>tk_admission := adm\<rparr>"
    then show ?thesis
      using admission_step.refuse [of "registry_admission s" charge adm] by (auto simp: registry_admission_def)
  qed simp
next
  case (build_returns s b q i e l charge c l')
  then show ?case
    using admission_step.shrink [of "registry_admission s" i l charge c l']
    by (auto simp: registry_admission_def)
next
  case (register_stopping s b e i r gpu)
  then show ?case using prepare_register_stopping [OF register_stopping(2)] by (simp add: registry_admission_def)
next
  case (register_done s b e i r cancelled)
  from register_done(2) have "tk_admission r = tk_admission (rs_registry s)"
    by (rule prepare_register_done) simp
  then show ?case by (simp add: registry_admission_def)
next
  case (cancel_key s key r res)
  then show ?case using cancel_key_poll_fields [OF cancel_key] by (auto simp: registry_admission_def)
next
  case (seal s r first)
  then show ?case using seal_fields [OF seal] by (auto simp: registry_admission_def)
next
  case (lease_dies s i l c l')
  then show ?case
    using admission_step.destroy [of "registry_admission s" i l c l'] by (auto simp: registry_admission_def)
qed (simp_all add: registry_admission_def)

interpretation registry_refines: simulation "registry_init capacity" "registry_step max_active"
  "admission_init capacity" admission_step registry_admission
  for capacity max_active
proof unfold_locales
  show "registry_init capacity s \<Longrightarrow> admission_init capacity (registry_admission s)" for s
    by (simp add: registry_init_def admission_init_def registry_admission_def new_ticket_registry_def)
qed (rule registry_step_admission)

section \<open>The invariant\<close>

definition busy :: "registry_system \<Rightarrow> nat set" where
  "busy s = {b. rs_builders s b \<noteq> B_idle}"

text \<open>Room: registered executions and reservations together never exceed the limit, and the counter
  is the number of preparing threads.\<close>

definition room_inv :: "nat \<Rightarrow> registry_system \<Rightarrow> bool" where
  "room_inv max_active s \<longleftrightarrow>
     finite (busy s) \<and> finite (dom (tk_entries (rs_registry s))) \<and>
     tk_reserved (rs_registry s) = of_nat (card (busy s)) \<and>
     card (dom (tk_entries (rs_registry s))) + card (busy s) \<le> max_active"

text \<open>Idempotency records and their executions.\<close>

definition record_inv :: "registry_system \<Rightarrow> bool" where
  "record_inv s \<longleftrightarrow>
     (let r = rs_registry s in
      (\<forall>t e. tk_entries r t = Some e \<longrightarrow>
         ee_ticket e = t \<and>
         (\<exists>rec. tk_idempotency r (ee_idempotency_key e) = Some rec \<and> \<not> ir_preparing rec \<and> ir_ticket rec = t)) \<and>
      (\<forall>k rec. tk_idempotency r k = Some rec \<and> \<not> ir_preparing rec \<longrightarrow>
         (\<exists>e. tk_entries r (ir_ticket rec) = Some e \<and> ee_idempotency_key e = k)) \<and>
      (\<forall>b k. builder_key (rs_builders s b) = Some k \<longrightarrow>
         (case tk_idempotency r k of Some rec \<Rightarrow> ir_preparing rec | None \<Rightarrow> tk_stopped r)) \<and>
      (\<forall>k rec. tk_idempotency r k = Some rec \<and> ir_preparing rec \<longrightarrow>
         (\<exists>b. builder_key (rs_builders s b) = Some k)) \<and>
      (tk_gpu_unavailable r \<longrightarrow> tk_stopped r))"

text \<open>Preparing threads have keys and tickets of their own.\<close>

definition builder_inv :: "registry_system \<Rightarrow> bool" where
  "builder_inv s \<longleftrightarrow>
     (\<forall>b c k. builder_key (rs_builders s b) = Some k \<and> builder_key (rs_builders s c) = Some k \<longrightarrow> b = c) \<and>
     (\<forall>b c k. builder_ticket (rs_builders s b) = Some k \<and> builder_ticket (rs_builders s c) = Some k \<longrightarrow> b = c) \<and>
     (\<forall>b k. builder_ticket (rs_builders s b) = Some k \<longrightarrow> tk_entries (rs_registry s) k = None)"

lemma builder_simps [simp]:
  "builder_key B_idle = None" "builder_key (B_building q i) = Some (er_idempotency_key q)"
  "builder_key (B_built e i) = Some (ee_idempotency_key e)" "builder_key (B_failed k) = Some k"
  "builder_ticket B_idle = None" "builder_ticket (B_building q i) = None"
  "builder_ticket (B_built e i) = Some (ee_ticket e)" "builder_ticket (B_failed k) = None"
  "builder_lease B_idle = None" "builder_lease (B_building q i) = Some i"
  "builder_lease (B_built e i) = Some i" "builder_lease (B_failed k) = None"
  by (simp_all add: builder_key_def builder_ticket_def builder_lease_def)

lemma builder_key_None_iff [simp]: "builder_key b = None \<longleftrightarrow> b = B_idle"
  by (cases b) simp_all

section \<open>Room\<close>

text \<open>A thread that becomes busy, and one that becomes idle.\<close>

lemma busy_grows: "rs_builders s b = B_idle \<Longrightarrow> x \<noteq> B_idle \<Longrightarrow> rs_builders t = (rs_builders s)(b := x) \<Longrightarrow>
    busy t = insert b (busy s) \<and> b \<notin> busy s"
  by (auto simp: busy_def)

lemma busy_shrinks: "rs_builders s b \<noteq> B_idle \<Longrightarrow> rs_builders t = (rs_builders s)(b := B_idle) \<Longrightarrow>
    busy t = busy s - {b} \<and> b \<in> busy s"
  by (auto simp: busy_def)

lemma room_same:
  assumes "room_inv max_active s" and "busy t = busy s"
    and "dom (tk_entries (rs_registry t)) \<subseteq> dom (tk_entries (rs_registry s))"
    and "tk_reserved (rs_registry t) = tk_reserved (rs_registry s)"
  shows "room_inv max_active t"
proof -
  have "finite (dom (tk_entries (rs_registry s)))" using assms(1) by (simp add: room_inv_def)
  then have "card (dom (tk_entries (rs_registry t))) \<le> card (dom (tk_entries (rs_registry s)))"
    and "finite (dom (tk_entries (rs_registry t)))"
    using assms(3) by (auto intro: card_mono finite_subset)
  with assms show ?thesis by (simp add: room_inv_def)
qed

lemma room_release:
  assumes inv: "room_inv max_active s" and b: "rs_builders s b \<noteq> B_idle"
    and t: "rs_builders t = (rs_builders s)(b := B_idle)"
    and r: "tk_reserved (rs_registry t) = tk_reserved (rs_registry s) - 1"
    and e: "dom (tk_entries (rs_registry t)) \<subseteq> insert k (dom (tk_entries (rs_registry s)))"
  shows "room_inv max_active t"
proof -
  have fin: "finite (busy s)" "finite (dom (tk_entries (rs_registry s)))" using inv by (simp_all add: room_inv_def)
  have busy: "busy t = busy s - {b}" "b \<in> busy s" using busy_shrinks [OF b t] by simp_all
  then have card: "card (busy s) = Suc (card (busy t))" using fin(1) by (metis card_Suc_Diff1)
  have "card (dom (tk_entries (rs_registry t))) \<le> card (insert k (dom (tk_entries (rs_registry s))))"
    using fin(2) e by (intro card_mono) simp_all
  also have "\<dots> \<le> Suc (card (dom (tk_entries (rs_registry s))))" using fin(2) by (simp add: card_insert_if)
  finally have "card (dom (tk_entries (rs_registry t))) + card (busy t) \<le> max_active"
    using inv card by (simp add: room_inv_def)
  moreover have "finite (dom (tk_entries (rs_registry t)))" using fin(2) e by (meson finite_insert finite_subset)
  moreover have "finite (busy t)" using busy(1) fin(1) by simp
  moreover have "tk_reserved (rs_registry t) = of_nat (card (busy t))"
    using inv unfolding r by (simp add: room_inv_def card)
  ultimately show ?thesis by (simp add: room_inv_def)
qed

lemma room_step:
  assumes "registry_step max_active s t" and "room_inv max_active s" and small: "max_active < 2 ^ 64"
  shows "room_inv max_active t"
  using assms(1,2)
proof (induction rule: registry_step.induct)
  case (poll_reserves s b q r l i)
  let ?t = "s\<lparr>rs_registry := r, rs_builders := (rs_builders s)(b := B_building q i), rs_leases := (rs_leases s)(i \<mapsto> l)\<rparr>"
  from poll_reserves(2) have r: "tk_reserved r = tk_reserved (rs_registry s) + 1"
    "tk_entries r = tk_entries (rs_registry s)"
    and free: "card (dom (tk_entries (rs_registry s))) + unat (tk_reserved (rs_registry s)) < max_active"
    by (auto elim: prepare_poll_reserved)
  have "card (busy s) < 2 ^ 64" using poll_reserves(4) small by (simp add: room_inv_def)
  then have "unat (tk_reserved (rs_registry s)) = card (busy s)"
    using poll_reserves(4) by (simp add: room_inv_def unat_of_nat_u64)
  moreover have "busy ?t = insert b (busy s)" "b \<notin> busy s"
    using busy_grows [OF poll_reserves(1), of "B_building q i" ?t] by simp_all
  ultimately show ?case using poll_reserves(4) r free by (simp add: room_inv_def)
next
  case (poll_returns s q r st)
  show ?case
    by (rule room_same [OF poll_returns(2)])
      (use prepare_poll_returns [OF poll_returns(1)] in \<open>auto simp: busy_def\<close>)
next
  case (build_throws s b q i)
  show ?case
    by (rule room_same [OF build_throws(2)]) (use build_throws(1) in \<open>auto simp: busy_def\<close>)
next
  case (build_unwinds s b key)
  show ?case
    by (rule room_release [OF build_unwinds(2), where b = b and k = "[]"])
      (use build_unwinds in \<open>auto simp: release_reservation_def\<close>)
next
  case (build_returns s b q i e l charge c l')
  show ?case
    by (rule room_same [OF build_returns(7)]) (use build_returns(1) in \<open>auto simp: busy_def\<close>)
next
  case (register_stopping s b e i r gpu)
  show ?case
    by (rule room_release [OF register_stopping(3), where b = b and k = "[]"])
      (use register_stopping prepare_register_stopping [OF register_stopping(2)] in auto)
next
  case (register_done s b e i r cancelled)
  from register_done(2) have r: "tk_reserved r = tk_reserved (rs_registry s) - 1"
    "dom (tk_entries r) \<subseteq> insert (ee_ticket e) (dom (tk_entries (rs_registry s)))"
    by (auto elim!: prepare_register_done split: if_split_asm)
  show ?case
    by (rule room_release [OF register_done(3), where b = b and k = "ee_ticket e"])
      (use register_done r in auto)
next
  case (entry_moves s t e e')
  show ?case by (rule room_same [OF entry_moves(3)]) (use entry_moves in \<open>auto simp: busy_def\<close>)
next
  case (removes s t)
  show ?case
    by (rule room_same [OF removes(1)]) (auto simp: busy_def tk_remove_def split: option.splits if_splits)
next
  case (cancel_key s key r res)
  show ?case
    by (rule room_same [OF cancel_key(2)]) (use cancel_key_poll_fields [OF cancel_key(1)] in \<open>auto simp: busy_def\<close>)
next
  case (seal s r first)
  show ?case by (rule room_same [OF seal(2)]) (use seal_fields [OF seal(1)] in \<open>auto simp: busy_def\<close>)
next
  case (stop s)
  show ?case by (rule room_same [OF stop(1)]) (auto simp: busy_def stop_admission_def)
next
  case (clear s)
  show ?case by (rule room_same [OF clear(2)]) (auto simp: busy_def shutdown_clear_def)
next
  case (lease_dies s i l c l')
  show ?case by (rule room_same [OF lease_dies(4)]) (auto simp: busy_def)
qed

section \<open>Records and preparing threads\<close>

lemma builder_same:
  assumes "builder_inv s"
    and "\<And>c k. builder_key (rs_builders t c) = Some k \<Longrightarrow> builder_key (rs_builders s c) = Some k"
    and "\<And>c k. builder_ticket (rs_builders t c) = Some k \<Longrightarrow> builder_ticket (rs_builders s c) = Some k"
    and "\<And>k. tk_entries (rs_registry s) k = None \<Longrightarrow> tk_entries (rs_registry t) k = None"
  shows "builder_inv t"
  using assms(1) unfolding builder_inv_def by (blast dest: assms(2,3) intro: assms(4))

lemma record_entryD:
  assumes "record_inv s" and "tk_entries (rs_registry s) t = Some e"
  obtains rec where "ee_ticket e = t" and "tk_idempotency (rs_registry s) (ee_idempotency_key e) = Some rec"
    and "\<not> ir_preparing rec" and "ir_ticket rec = t"
  using assms unfolding record_inv_def Let_def by blast

lemma record_doneD:
  assumes "record_inv s" and "tk_idempotency (rs_registry s) k = Some rec" and "\<not> ir_preparing rec"
  obtains e where "tk_entries (rs_registry s) (ir_ticket rec) = Some e" and "ee_idempotency_key e = k"
  using assms unfolding record_inv_def Let_def by blast

lemma record_builderD:
  assumes "record_inv s" and "builder_key (rs_builders s b) = Some k"
  shows "case tk_idempotency (rs_registry s) k of Some rec \<Rightarrow> ir_preparing rec | None \<Rightarrow> tk_stopped (rs_registry s)"
  using assms unfolding record_inv_def Let_def by blast

lemma record_preparingD:
  assumes "record_inv s" and "tk_idempotency (rs_registry s) k = Some rec" and "ir_preparing rec"
  obtains b where "builder_key (rs_builders s b) = Some k"
  using assms unfolding record_inv_def Let_def by blast

lemma record_gpuD: "record_inv s \<Longrightarrow> tk_gpu_unavailable (rs_registry s) \<Longrightarrow> tk_stopped (rs_registry s)"
  by (simp add: record_inv_def Let_def)

lemma record_invI:
  assumes "\<And>t e. tk_entries (rs_registry s) t = Some e \<Longrightarrow> ee_ticket e = t \<and>
      (\<exists>rec. tk_idempotency (rs_registry s) (ee_idempotency_key e) = Some rec \<and> \<not> ir_preparing rec \<and> ir_ticket rec = t)"
    and "\<And>k rec. tk_idempotency (rs_registry s) k = Some rec \<Longrightarrow> \<not> ir_preparing rec \<Longrightarrow>
      \<exists>e. tk_entries (rs_registry s) (ir_ticket rec) = Some e \<and> ee_idempotency_key e = k"
    and "\<And>b k. builder_key (rs_builders s b) = Some k \<Longrightarrow>
      case tk_idempotency (rs_registry s) k of Some rec \<Rightarrow> ir_preparing rec | None \<Rightarrow> tk_stopped (rs_registry s)"
    and "\<And>k rec. tk_idempotency (rs_registry s) k = Some rec \<Longrightarrow> ir_preparing rec \<Longrightarrow>
      \<exists>b. builder_key (rs_builders s b) = Some k"
    and "tk_gpu_unavailable (rs_registry s) \<Longrightarrow> tk_stopped (rs_registry s)"
  shows "record_inv s"
  using assms unfolding record_inv_def Let_def by blast

lemma record_fields:
  assumes "record_inv s" and "tk_entries (rs_registry t) = tk_entries (rs_registry s)"
    and "tk_idempotency (rs_registry t) = tk_idempotency (rs_registry s)"
    and "tk_stopped (rs_registry s) \<longrightarrow> tk_stopped (rs_registry t)"
    and "tk_gpu_unavailable (rs_registry t) \<longrightarrow> tk_stopped (rs_registry t)"
    and "\<And>c. builder_key (rs_builders t c) = builder_key (rs_builders s c)"
  shows "record_inv t"
proof (rule record_invI, unfold assms(2,3,6))
  fix c k assume "builder_key (rs_builders s c) = Some k"
  from record_builderD [OF assms(1) this] assms(4)
  show "case tk_idempotency (rs_registry s) k of Some rec \<Rightarrow> ir_preparing rec | None \<Rightarrow> tk_stopped (rs_registry t)"
    by (auto split: option.splits)
qed (use assms(5) in \<open>auto elim: record_entryD [OF assms(1)] record_doneD [OF assms(1)] record_preparingD [OF assms(1)]\<close>)

lemma builder_keyD:
  "builder_inv s \<Longrightarrow> builder_key (rs_builders s b) = Some k \<Longrightarrow> builder_key (rs_builders s c) = Some k \<Longrightarrow> b = c"
  unfolding builder_inv_def by blast

lemma builder_ticketD:
  "builder_inv s \<Longrightarrow> builder_ticket (rs_builders s b) = Some k \<Longrightarrow> tk_entries (rs_registry s) k = None"
  unfolding builder_inv_def by blast

text \<open>A preparing thread that gives its record up: the record is erased, the thread is idle.\<close>

lemma record_gives_up:
  assumes inv: "record_inv s" and uniq: "builder_inv s" and key: "builder_key (rs_builders s b) = Some k"
    and r: "rs_registry t = (rs_registry s)\<lparr>tk_reserved := n, tk_idempotency := (tk_idempotency (rs_registry s))(k := None)\<rparr>"
    and bs: "rs_builders t = (rs_builders s)(b := B_idle)"
  shows "record_inv t"
proof (rule record_invI)
  fix t' e assume "tk_entries (rs_registry t) t' = Some e"
  then have "tk_entries (rs_registry s) t' = Some e" using r by simp
  from record_entryD [OF inv this] obtain rec where rec: "ee_ticket e = t'" "\<not> ir_preparing rec" "ir_ticket rec = t'"
      "tk_idempotency (rs_registry s) (ee_idempotency_key e) = Some rec" by blast
  then have "ee_idempotency_key e \<noteq> k" using record_builderD [OF inv key] by auto
  with rec show "ee_ticket e = t' \<and> (\<exists>rec. tk_idempotency (rs_registry t) (ee_idempotency_key e) = Some rec \<and>
      \<not> ir_preparing rec \<and> ir_ticket rec = t')" using r by auto
next
  fix k' rec assume "tk_idempotency (rs_registry t) k' = Some rec" and "\<not> ir_preparing rec"
  then show "\<exists>e. tk_entries (rs_registry t) (ir_ticket rec) = Some e \<and> ee_idempotency_key e = k'"
    using r by (auto split: if_split_asm elim: record_doneD [OF inv])
next
  fix c k' assume "builder_key (rs_builders t c) = Some k'"
  then have c: "c \<noteq> b" "builder_key (rs_builders s c) = Some k'" using bs by (auto split: if_split_asm)
  then have "k' \<noteq> k" using builder_keyD [OF uniq key] by auto
  then show "case tk_idempotency (rs_registry t) k' of Some rec \<Rightarrow> ir_preparing rec | None \<Rightarrow> tk_stopped (rs_registry t)"
    using record_builderD [OF inv c(2)] r by (auto split: option.splits)
next
  fix k' rec assume "tk_idempotency (rs_registry t) k' = Some rec" and p: "ir_preparing rec"
  then have k': "k' \<noteq> k" "tk_idempotency (rs_registry s) k' = Some rec" using r by (auto split: if_split_asm)
  then obtain c where "builder_key (rs_builders s c) = Some k'" using p by (auto elim: record_preparingD [OF inv])
  then show "\<exists>c. builder_key (rs_builders t c) = Some k'" using k' key bs by (intro exI [of _ c]) auto
next
  show "tk_gpu_unavailable (rs_registry t) \<Longrightarrow> tk_stopped (rs_registry t)" using record_gpuD [OF inv] r by simp
qed

text \<open>A new reservation.\<close>

lemma record_reserves:
  assumes inv: "record_inv s" and idle: "rs_builders s b = B_idle"
    and none: "tk_idempotency (rs_registry s) (er_idempotency_key q) = None"
    and r: "rs_registry t = (rs_registry s)\<lparr>tk_admission := adm, tk_reserved := n,
      tk_idempotency := (tk_idempotency (rs_registry s))(er_idempotency_key q \<mapsto> rec)\<rparr>" and rec: "ir_preparing rec"
    and bs: "rs_builders t = (rs_builders s)(b := B_building q i)"
  shows "record_inv t"
proof (rule record_invI)
  fix t' e assume "tk_entries (rs_registry t) t' = Some e"
  then have "tk_entries (rs_registry s) t' = Some e" using r by simp
  then show "ee_ticket e = t' \<and> (\<exists>rec. tk_idempotency (rs_registry t) (ee_idempotency_key e) = Some rec \<and>
      \<not> ir_preparing rec \<and> ir_ticket rec = t')"
    using none r by (elim record_entryD [OF inv]) auto
next
  fix k' rec' assume "tk_idempotency (rs_registry t) k' = Some rec'" and "\<not> ir_preparing rec'"
  then show "\<exists>e. tk_entries (rs_registry t) (ir_ticket rec') = Some e \<and> ee_idempotency_key e = k'"
    using r rec by (auto split: if_split_asm elim: record_doneD [OF inv])
next
  fix c k' assume "builder_key (rs_builders t c) = Some k'"
  then show "case tk_idempotency (rs_registry t) k' of Some rec \<Rightarrow> ir_preparing rec | None \<Rightarrow> tk_stopped (rs_registry t)"
    using record_builderD [OF inv, of c k'] r rec bs by (auto split: if_split_asm option.splits)
next
  fix k' rec' assume "tk_idempotency (rs_registry t) k' = Some rec'" and p: "ir_preparing rec'"
  then consider "k' = er_idempotency_key q" | "tk_idempotency (rs_registry s) k' = Some rec'" "k' \<noteq> er_idempotency_key q"
    using r by (auto split: if_split_asm)
  then show "\<exists>c. builder_key (rs_builders t c) = Some k'"
  proof cases
    case 1
    then show ?thesis using bs by (intro exI [of _ b]) simp
  next
    case 2
    then obtain c where "builder_key (rs_builders s c) = Some k'" using p by (auto elim: record_preparingD [OF inv])
    then show ?thesis using idle bs by (intro exI [of _ c]) auto
  qed
next
  show "tk_gpu_unavailable (rs_registry t) \<Longrightarrow> tk_stopped (rs_registry t)" using record_gpuD [OF inv] r by simp
qed

text \<open>A prepared entry is published.\<close>

lemma record_publishes:
  assumes inv: "record_inv s" and uniq: "builder_inv s" and built: "rs_builders s b = B_built e i"
    and old: "tk_idempotency (rs_registry s) (ee_idempotency_key e) = Some rec"
    and r: "rs_registry t = (rs_registry s)\<lparr>tk_reserved := n,
      tk_entries := (tk_entries (rs_registry s))(ee_ticket e \<mapsto> e),
      tk_idempotency := (tk_idempotency (rs_registry s))(ee_idempotency_key e \<mapsto>
        rec\<lparr>ir_ticket := ee_ticket e, ir_preparing := False\<rparr>)\<rparr>"
    and bs: "rs_builders t = (rs_builders s)(b := B_idle)"
  shows "record_inv t"
proof (rule record_invI)
  have key: "builder_key (rs_builders s b) = Some (ee_idempotency_key e)" using built by simp
  have prep: "ir_preparing rec" using record_builderD [OF inv key] old by simp
  have free: "tk_entries (rs_registry s) (ee_ticket e) = None" using built by (intro builder_ticketD [OF uniq, of b]) simp
  {
    fix t' e' assume "tk_entries (rs_registry t) t' = Some e'"
    then consider "t' = ee_ticket e" "e' = e" | "t' \<noteq> ee_ticket e" "tk_entries (rs_registry s) t' = Some e'"
      using r by (auto split: if_split_asm)
    then show "ee_ticket e' = t' \<and> (\<exists>rec. tk_idempotency (rs_registry t) (ee_idempotency_key e') = Some rec \<and>
        \<not> ir_preparing rec \<and> ir_ticket rec = t')"
    proof cases
      case 1
      then show ?thesis using r by simp
    next
      case 2
      from record_entryD [OF inv 2(2)] obtain rec' where rec': "ee_ticket e' = t'" "\<not> ir_preparing rec'"
        "ir_ticket rec' = t'" "tk_idempotency (rs_registry s) (ee_idempotency_key e') = Some rec'" by blast
      then have "ee_idempotency_key e' \<noteq> ee_idempotency_key e" using old prep by auto
      with rec' show ?thesis using r by auto
    qed
  next
    fix k' rec' assume "tk_idempotency (rs_registry t) k' = Some rec'" and live: "\<not> ir_preparing rec'"
    then consider "k' = ee_idempotency_key e" "ir_ticket rec' = ee_ticket e"
      | "tk_idempotency (rs_registry s) k' = Some rec'"
      using r by (auto split: if_split_asm)
    then show "\<exists>e'. tk_entries (rs_registry t) (ir_ticket rec') = Some e' \<and> ee_idempotency_key e' = k'"
    proof cases
      case 1
      then show ?thesis using r by simp
    next
      case 2
      from record_doneD [OF inv 2 live] obtain e' where
        e': "tk_entries (rs_registry s) (ir_ticket rec') = Some e'" "ee_idempotency_key e' = k'" by blast
      then have "ir_ticket rec' \<noteq> ee_ticket e" using free by auto
      with e' show ?thesis using r by auto
    qed
  next
    fix c k' assume "builder_key (rs_builders t c) = Some k'"
    then have c: "c \<noteq> b" "builder_key (rs_builders s c) = Some k'" using bs by (auto split: if_split_asm)
    then have "k' \<noteq> ee_idempotency_key e" using builder_keyD [OF uniq key] by auto
    then show "case tk_idempotency (rs_registry t) k' of Some rec \<Rightarrow> ir_preparing rec | None \<Rightarrow> tk_stopped (rs_registry t)"
      using record_builderD [OF inv c(2)] r by (auto split: option.splits)
  next
    fix k' rec' assume "tk_idempotency (rs_registry t) k' = Some rec'" and p: "ir_preparing rec'"
    then have k': "k' \<noteq> ee_idempotency_key e" "tk_idempotency (rs_registry s) k' = Some rec'"
      using r by (auto split: if_split_asm)
    then obtain c where "builder_key (rs_builders s c) = Some k'" using p by (auto elim: record_preparingD [OF inv])
    then show "\<exists>c. builder_key (rs_builders t c) = Some k'" using k' key bs by (intro exI [of _ c]) auto
  next
    show "tk_gpu_unavailable (rs_registry t) \<Longrightarrow> tk_stopped (rs_registry t)" using record_gpuD [OF inv] r by simp
  }
qed

text \<open>An execution is removed together with its record.\<close>

lemma record_removes:
  assumes inv: "record_inv s"
  shows "record_inv (s\<lparr>rs_registry := tk_remove (rs_registry s) t, rs_owner := w\<rparr>)" (is "record_inv ?t")
proof (cases "tk_entries (rs_registry s) t")
  case None
  then show ?thesis by (intro record_fields [OF inv]) (use record_gpuD [OF inv] in \<open>auto simp: tk_remove_def\<close>)
next
  case (Some e)
  let ?k = "ee_idempotency_key e"
  from record_entryD [OF inv Some] obtain rec where rec: "ee_ticket e = t" "\<not> ir_preparing rec" "ir_ticket rec = t"
    "tk_idempotency (rs_registry s) ?k = Some rec" by blast
  have r: "rs_registry ?t = (rs_registry s)\<lparr>tk_idempotency := (tk_idempotency (rs_registry s))(?k := None),
      tk_entries := (tk_entries (rs_registry s))(t := None)\<rparr>"
    using Some by (simp add: tk_remove_def)
  show ?thesis
  proof (rule record_invI)
    fix t' e' assume "tk_entries (rs_registry ?t) t' = Some e'"
    then have e': "t' \<noteq> t" "tk_entries (rs_registry s) t' = Some e'" using r by (auto split: if_split_asm)
    from record_entryD [OF inv e'(2)] obtain rec' where rec': "ee_ticket e' = t'" "\<not> ir_preparing rec'"
      "ir_ticket rec' = t'" "tk_idempotency (rs_registry s) (ee_idempotency_key e') = Some rec'" by blast
    then have "ee_idempotency_key e' \<noteq> ?k" using rec e'(1) by auto
    with rec' show "ee_ticket e' = t' \<and> (\<exists>rec. tk_idempotency (rs_registry ?t) (ee_idempotency_key e') = Some rec \<and>
        \<not> ir_preparing rec \<and> ir_ticket rec = t')" using r by auto
  next
    fix k' rec' assume "tk_idempotency (rs_registry ?t) k' = Some rec'" and live: "\<not> ir_preparing rec'"
    then have k': "k' \<noteq> ?k" "tk_idempotency (rs_registry s) k' = Some rec'" using r by (auto split: if_split_asm)
    from record_doneD [OF inv k'(2) live] obtain e' where
      e': "tk_entries (rs_registry s) (ir_ticket rec') = Some e'" "ee_idempotency_key e' = k'" by blast
    then have "ir_ticket rec' \<noteq> t" using k'(1) Some by auto
    with e' show "\<exists>e'. tk_entries (rs_registry ?t) (ir_ticket rec') = Some e' \<and> ee_idempotency_key e' = k'"
      using r by auto
  next
    fix c k' assume "builder_key (rs_builders ?t c) = Some k'"
    then have c: "builder_key (rs_builders s c) = Some k'" by simp
    then have "k' \<noteq> ?k" using record_builderD [OF inv c] rec by auto
    then show "case tk_idempotency (rs_registry ?t) k' of Some rec \<Rightarrow> ir_preparing rec | None \<Rightarrow> tk_stopped (rs_registry ?t)"
      using record_builderD [OF inv c] r by (auto split: option.splits)
  next
    fix k' rec' assume "tk_idempotency (rs_registry ?t) k' = Some rec'" and p: "ir_preparing rec'"
    then have "tk_idempotency (rs_registry s) k' = Some rec'" using r by (auto split: if_split_asm)
    then show "\<exists>c. builder_key (rs_builders ?t c) = Some k'" using p by (auto elim: record_preparingD [OF inv])
  next
    show "tk_gpu_unavailable (rs_registry ?t) \<Longrightarrow> tk_stopped (rs_registry ?t)" using record_gpuD [OF inv] r by simp
  qed
qed

text \<open>A record is marked for cancellation.\<close>

lemma record_marks:
  assumes inv: "record_inv s" and old: "tk_idempotency (rs_registry s) key = Some rec"
  shows "record_inv (s\<lparr>rs_registry := (rs_registry s)\<lparr>tk_idempotency :=
    (tk_idempotency (rs_registry s))(key \<mapsto> rec\<lparr>ir_cancel_requested := True\<rparr>)\<rparr>\<rparr>)" (is "record_inv ?t")
proof (rule record_invI)
  have was: "tk_idempotency (rs_registry ?t) k' = Some rec' \<Longrightarrow> \<exists>rec1. tk_idempotency (rs_registry s) k' = Some rec1 \<and>
      ir_preparing rec1 = ir_preparing rec' \<and> ir_ticket rec1 = ir_ticket rec'" for k' rec'
    using old by (auto split: if_split_asm)
  {
  fix t' e assume "tk_entries (rs_registry ?t) t' = Some e"
  then have "tk_entries (rs_registry s) t' = Some e" by simp
  then show "ee_ticket e = t' \<and> (\<exists>rec. tk_idempotency (rs_registry ?t) (ee_idempotency_key e) = Some rec \<and>
      \<not> ir_preparing rec \<and> ir_ticket rec = t')"
    using old by (elim record_entryD [OF inv]) auto
next
  fix k' rec' assume "tk_idempotency (rs_registry ?t) k' = Some rec'" and "\<not> ir_preparing rec'"
  with was obtain rec1 where "tk_idempotency (rs_registry s) k' = Some rec1" "\<not> ir_preparing rec1"
    "ir_ticket rec1 = ir_ticket rec'" by metis
  then show "\<exists>e. tk_entries (rs_registry ?t) (ir_ticket rec') = Some e \<and> ee_idempotency_key e = k'"
    by (auto elim: record_doneD [OF inv])
next
  fix c k' assume "builder_key (rs_builders ?t c) = Some k'"
  then show "case tk_idempotency (rs_registry ?t) k' of Some rec \<Rightarrow> ir_preparing rec | None \<Rightarrow> tk_stopped (rs_registry ?t)"
    using record_builderD [OF inv, of c k'] old by (auto split: option.splits)
next
  fix k' rec' assume "tk_idempotency (rs_registry ?t) k' = Some rec'" and p: "ir_preparing rec'"
  with was obtain rec1 where "tk_idempotency (rs_registry s) k' = Some rec1" "ir_preparing rec1" by metis
  then show "\<exists>c. builder_key (rs_builders ?t c) = Some k'" by (auto elim: record_preparingD [OF inv])
next
  show "tk_gpu_unavailable (rs_registry ?t) \<Longrightarrow> tk_stopped (rs_registry ?t)" using record_gpuD [OF inv] by simp
  }
qed

text \<open>The steps of a registered execution keep its identity.\<close>

lemma record_entry_moves:
  assumes inv: "record_inv s" and e: "tk_entries (rs_registry s) t = Some e"
    and same: "same_execution e e'"
  shows "record_inv (s\<lparr>rs_registry := (rs_registry s)\<lparr>tk_entries := (tk_entries (rs_registry s))(t \<mapsto> e')\<rparr>\<rparr>)"
    (is "record_inv ?t")
proof (rule record_invI)
  have key: "ee_idempotency_key e' = ee_idempotency_key e" "ee_ticket e' = ee_ticket e"
    using same by (simp_all add: ee_idempotency_key_def same_execution_def)
  {
    fix t' f assume "tk_entries (rs_registry ?t) t' = Some f"
    then obtain g where "tk_entries (rs_registry s) t' = Some g" "ee_ticket g = ee_ticket f"
      "ee_idempotency_key g = ee_idempotency_key f"
      using e key by (auto split: if_split_asm)
    then show "ee_ticket f = t' \<and> (\<exists>rec. tk_idempotency (rs_registry ?t) (ee_idempotency_key f) = Some rec \<and>
        \<not> ir_preparing rec \<and> ir_ticket rec = t')"
      by (elim record_entryD [OF inv]) auto
  next
    fix k' rec' assume "tk_idempotency (rs_registry ?t) k' = Some rec'" and "\<not> ir_preparing rec'"
    then have "tk_idempotency (rs_registry s) k' = Some rec'" "\<not> ir_preparing rec'" by simp_all
    then show "\<exists>f. tk_entries (rs_registry ?t) (ir_ticket rec') = Some f \<and> ee_idempotency_key f = k'"
      using e key by (elim record_doneD [OF inv]) auto
  next
    fix c k' assume "builder_key (rs_builders ?t c) = Some k'"
    then show "case tk_idempotency (rs_registry ?t) k' of Some rec \<Rightarrow> ir_preparing rec | None \<Rightarrow> tk_stopped (rs_registry ?t)"
      using record_builderD [OF inv, of c k'] by (auto split: option.splits)
  next
    fix k' rec' assume "tk_idempotency (rs_registry ?t) k' = Some rec'" and "ir_preparing rec'"
    then show "\<exists>c. builder_key (rs_builders ?t c) = Some k'" by (auto elim: record_preparingD [OF inv])
  next
    show "tk_gpu_unavailable (rs_registry ?t) \<Longrightarrow> tk_stopped (rs_registry ?t)" using record_gpuD [OF inv] by simp
  }
qed

lemma record_step:
  assumes "registry_step max_active s t" and "record_inv s" and "builder_inv s"
  shows "record_inv t"
  using assms
proof (induction rule: registry_step.induct)
  case (poll_reserves s b q r l i)
  from poll_reserves(2) show ?case
    by (rule prepare_poll_reserved) (rule record_reserves [OF poll_reserves(4,1)], auto)
next
  case (poll_returns s q r st)
  show ?case
    by (rule record_fields [OF poll_returns(2)])
      (use prepare_poll_returns [OF poll_returns(1)] record_gpuD [OF poll_returns(2)] in auto)
next
  case (build_throws s b q i)
  show ?case
    by (rule record_fields [OF build_throws(2)]) (use build_throws(1) record_gpuD [OF build_throws(2)] in auto)
next
  case (build_unwinds s b key)
  show ?case
    by (rule record_gives_up [OF build_unwinds(2,3), of b key])
      (use build_unwinds(1) in \<open>auto simp: release_reservation_def\<close>)
next
  case (build_returns s b q i e l charge c l')
  show ?case
    by (rule record_fields [OF build_returns(7)])
      (use build_returns(1,2) record_gpuD [OF build_returns(7)] in \<open>auto simp: ee_idempotency_key_def\<close>)
next
  case (register_stopping s b e i r gpu)
  show ?case
    by (rule record_gives_up [OF register_stopping(3,4), of b "ee_idempotency_key e"])
      (use register_stopping(1) prepare_register_stopping [OF register_stopping(2)] in auto)
next
  case (register_done s b e i r cancelled)
  have free: "tk_entries (rs_registry s) (ee_ticket e) = None"
    using register_done(1) by (intro builder_ticketD [OF register_done(4), of b]) simp
  from register_done(2) show ?case
    by (rule prepare_register_done) (rule record_publishes [OF register_done(3,4,1)], auto simp: free)
next
  case (entry_moves s t e e')
  then show ?case by (intro record_entry_moves)
next
  case (removes s t)
  then show ?case by (intro record_removes)
next
  case (cancel_key s key r res)
  from cancel_key_poll_fields [OF cancel_key(1)] show ?case
  proof (elim disjE exE conjE)
    fix rec assume "tk_idempotency (rs_registry s) key = Some rec"
      and "r = (rs_registry s)\<lparr>tk_idempotency := (tk_idempotency (rs_registry s))(key \<mapsto> rec\<lparr>ir_cancel_requested := True\<rparr>)\<rparr>"
    then show ?thesis using record_marks [OF cancel_key(2)] by simp
  qed (use cancel_key(2) in simp)
next
  case (seal s r first)
  show ?case
    by (rule record_fields [OF seal(2)]) (use seal_fields [OF seal(1)] record_gpuD [OF seal(2)] in auto)
next
  case (stop s)
  show ?case
    by (rule record_fields [OF stop(1)]) (use record_gpuD [OF stop(1)] in \<open>auto simp: stop_admission_def\<close>)
next
  case (clear s)
  show ?case
    by (rule record_invI) (use clear(1) in \<open>auto simp: shutdown_clear_def\<close>)
next
  case (lease_dies s i l c l')
  show ?case by (rule record_fields [OF lease_dies(4)]) (use record_gpuD [OF lease_dies(4)] in auto)
qed

lemma builder_step:
  assumes "registry_step max_active s t" and "record_inv s" and "builder_inv s"
  shows "builder_inv t"
  using assms
proof (induction rule: registry_step.induct)
  case (poll_reserves s b q r l i)
  from poll_reserves(2) obtain "tk_idempotency (rs_registry s) (er_idempotency_key q) = None"
    and "\<not> tk_stopped (rs_registry s)" and r: "tk_entries r = tk_entries (rs_registry s)"
    by (rule prepare_poll_reserved) simp
  then have "builder_key (rs_builders s c) \<noteq> Some (er_idempotency_key q)" for c
    using record_builderD [OF poll_reserves(4), of c "er_idempotency_key q"] by auto
  with poll_reserves(5) r show ?case by (auto simp: builder_inv_def)
next
  case (poll_returns s q r st)
  show ?case
    by (rule builder_same [OF poll_returns(3)]) (use prepare_poll_returns [OF poll_returns(1)] in auto)
next
  case (build_throws s b q i)
  show ?case by (rule builder_same [OF build_throws(3)]) (use build_throws(1) in \<open>auto split: if_split_asm\<close>)
next
  case (build_unwinds s b key)
  show ?case
    by (rule builder_same [OF build_unwinds(3)])
      (use build_unwinds(1) in \<open>auto simp: release_reservation_def split: if_split_asm\<close>)
next
  case (build_returns s b q i e l charge c l')
  have key: "builder_key (rs_builders s b) = Some (ee_idempotency_key e)"
    using build_returns(1,2) by (simp add: ee_idempotency_key_def)
  have fresh: "tk_entries (rs_registry s) (ee_ticket e) = None"
    "\<And>d. builder_ticket (rs_builders s d) \<noteq> Some (ee_ticket e)"
    using build_returns(3) by (simp_all add: fresh_ticket_def tk_contains_def)
  show ?case
    using build_returns(8) key fresh unfolding builder_inv_def by simp blast
next
  case (register_stopping s b e i r gpu)
  show ?case
    by (rule builder_same [OF register_stopping(4)])
      (use register_stopping(1) prepare_register_stopping [OF register_stopping(2)] in \<open>auto split: if_split_asm\<close>)
next
  case (register_done s b e i r cancelled)
  have own: "builder_ticket (rs_builders s b) = Some (ee_ticket e)" using register_done(1) by simp
  from register_done(2) have "tk_entries r = (tk_entries (rs_registry s))(ee_ticket e \<mapsto> e)"
    by (rule prepare_register_done) (simp add: builder_ticketD [OF register_done(4) own])
  with register_done(4) own show ?case unfolding builder_inv_def by simp blast
next
  case (entry_moves s t e e')
  show ?case by (rule builder_same [OF entry_moves(4)]) (use entry_moves(1) in auto)
next
  case (removes s t)
  show ?case by (rule builder_same [OF removes(2)]) (auto simp: tk_remove_def split: option.splits)
next
  case (cancel_key s key r res)
  show ?case
    by (rule builder_same [OF cancel_key(3)]) (use cancel_key_poll_fields [OF cancel_key(1)] in auto)
next
  case (seal s r first)
  show ?case by (rule builder_same [OF seal(3)]) (use seal_fields [OF seal(1)] in auto)
next
  case (stop s)
  show ?case by (rule builder_same [OF stop(2)]) (auto simp: stop_admission_def)
next
  case (clear s)
  show ?case by (rule builder_same [OF clear(3)]) (auto simp: shutdown_clear_def)
next
  case (lease_dies s i l c l')
  show ?case by (rule builder_same [OF lease_dies(5)]) auto
qed

section \<open>Leases\<close>

text \<open>Who holds a lease, and the charge of the work it is held for.\<close>

datatype holder = By_thread nat | By_entry bytes

definition holder_lease :: "registry_system \<Rightarrow> holder \<Rightarrow> nat option" where
  "holder_lease s h = (case h of By_thread b \<Rightarrow> builder_lease (rs_builders s b) | By_entry t \<Rightarrow> rs_owner s t)"

definition entry_charge :: "execution_entry \<Rightarrow> u64 res" where
  "entry_charge e = stream_execution_charge (ee_request e) (reg_size (ee_inputs e))"

definition holder_charge :: "registry_system \<Rightarrow> holder \<Rightarrow> u64 res option" where
  "holder_charge s h =
     (case h of
        By_thread b \<Rightarrow>
          (case rs_builders s b of
             B_building q _ \<Rightarrow> Some (stream_execution_charge q k_max_stream_inputs)
           | B_built e _ \<Rightarrow> Some (entry_charge e)
           | _ \<Rightarrow> None)
      | By_entry t \<Rightarrow> map_option entry_charge (tk_entries (rs_registry s) t))"

text \<open>Nobody shares a lease, held leases are alive, and whoever has work to pay for holds an owned
  lease of exactly its charge.\<close>

definition lease_inv :: "registry_system \<Rightarrow> bool" where
  "lease_inv s \<longleftrightarrow>
     (\<forall>h g i. holder_lease s h = Some i \<and> holder_lease s g = Some i \<longrightarrow> h = g) \<and>
     (\<forall>h i. holder_lease s h = Some i \<longrightarrow> rs_leases s i \<noteq> None) \<and>
     (\<forall>h c. holder_charge s h = Some c \<longrightarrow>
        (\<exists>i l. holder_lease s h = Some i \<and> rs_leases s i = Some l \<and> lease_owned l \<and> c = Inr (lease_bytes l)))"

lemma holder_simps [simp]:
  "holder_lease s (By_thread b) = builder_lease (rs_builders s b)" "holder_lease s (By_entry t) = rs_owner s t"
  "holder_charge s (By_entry t) = map_option entry_charge (tk_entries (rs_registry s) t)"
  by (simp_all add: holder_lease_def holder_charge_def)

lemma same_execution_charge: "same_execution e e' \<Longrightarrow> entry_charge e' = entry_charge e"
  by (simp add: same_execution_def entry_charge_def reg_size_def)

lemma lease_keep:
  assumes "lease_inv s"
    and "\<And>h i. holder_lease t h = Some i \<Longrightarrow> holder_lease s h = Some i \<and> rs_leases t i = rs_leases s i"
    and "\<And>h c. holder_charge t h = Some c \<Longrightarrow> holder_charge s h = Some c \<and> holder_lease t h = holder_lease s h"
  shows "lease_inv t"
  unfolding lease_inv_def
proof (intro conjI allI impI)
  fix h g i assume "holder_lease t h = Some i \<and> holder_lease t g = Some i"
  then show "h = g" using assms(1) assms(2) [of h i] assms(2) [of g i] unfolding lease_inv_def by blast
next
  fix h i assume "holder_lease t h = Some i"
  then show "rs_leases t i \<noteq> None" using assms(1) assms(2) [of h i] unfolding lease_inv_def by auto
next
  fix h c assume c: "holder_charge t h = Some c"
  then obtain i l where "holder_lease s h = Some i" "rs_leases s i = Some l" "lease_owned l" "c = Inr (lease_bytes l)"
    using assms(1) assms(3) [of h c] unfolding lease_inv_def by blast
  moreover from this(1) have "holder_lease t h = Some i" using assms(3) [OF c] by simp
  moreover from this have "rs_leases t i = rs_leases s i" using assms(2) by blast
  ultimately show "\<exists>i l. holder_lease t h = Some i \<and> rs_leases t i = Some l \<and> lease_owned l \<and> c = Inr (lease_bytes l)"
    by auto
qed

text \<open>One holder takes a lease that no other one has.\<close>

lemma lease_take:
  assumes inv: "lease_inv s" and h0: "holder_lease t h0 = Some i0" "rs_leases t i0 = Some l0" "lease_owned l0"
    and c0: "\<And>c. holder_charge t h0 = Some c \<Longrightarrow> c = Inr (lease_bytes l0)"
    and rest: "\<And>h i. h \<noteq> h0 \<Longrightarrow> holder_lease t h = Some i \<Longrightarrow>
      holder_lease s h = Some i \<and> i \<noteq> i0 \<and> rs_leases t i = rs_leases s i"
    and charge: "\<And>h c. h \<noteq> h0 \<Longrightarrow> holder_charge t h = Some c \<Longrightarrow>
      holder_charge s h = Some c \<and> holder_lease t h = holder_lease s h"
  shows "lease_inv t"
  unfolding lease_inv_def
proof (intro conjI allI impI)
  fix h g i assume hg: "holder_lease t h = Some i \<and> holder_lease t g = Some i"
  show "h = g"
  proof (cases "h = h0 \<or> g = h0")
    case True
    then show ?thesis using hg h0(1) rest by (metis option.inject)
  next
    case False
    then show ?thesis using hg rest inv unfolding lease_inv_def by blast
  qed
next
  fix h i assume h: "holder_lease t h = Some i"
  then show "rs_leases t i \<noteq> None" using h0 rest [of h i] inv unfolding lease_inv_def by (cases "h = h0") auto
next
  fix h c assume c: "holder_charge t h = Some c"
  show "\<exists>i l. holder_lease t h = Some i \<and> rs_leases t i = Some l \<and> lease_owned l \<and> c = Inr (lease_bytes l)"
  proof (cases "h = h0")
    case True
    then show ?thesis using c h0 c0 by blast
  next
    case False
    with c inv charge obtain i l where "holder_lease t h = Some i" "rs_leases s i = Some l" "lease_owned l"
      "c = Inr (lease_bytes l)" unfolding lease_inv_def by metis
    then show ?thesis using rest [OF False] by auto
  qed
qed

lemma lease_injD: "lease_inv s \<Longrightarrow> holder_lease s h = Some i \<Longrightarrow> holder_lease s g = Some i \<Longrightarrow> h = g"
  unfolding lease_inv_def by blast

lemma lease_aliveD: "lease_inv s \<Longrightarrow> holder_lease s h = Some i \<Longrightarrow> rs_leases s i \<noteq> None"
  unfolding lease_inv_def by blast

lemma lease_chargeD:
  assumes "lease_inv s" and "holder_charge s h = Some c"
  obtains i l where "holder_lease s h = Some i" and "rs_leases s i = Some l" and "lease_owned l" and "c = Inr (lease_bytes l)"
  using assms unfolding lease_inv_def by blast

lemmas holder_unfold = holder_lease_def holder_charge_def

lemma lease_step:
  assumes "registry_step max_active s t" and "lease_inv s" and "builder_inv s"
  shows "lease_inv t"
  using assms
proof (induction rule: registry_step.induct)
  case (poll_reserves s b q r l i)
  from poll_reserves(2) obtain charge adm where charge: "stream_execution_charge q k_max_stream_inputs = Inr charge"
    and l: "try_acquire (tk_admission (rs_registry s)) charge = (adm, Some l)"
    and r: "tk_entries r = tk_entries (rs_registry s)"
    by (rule prepare_poll_reserved) simp
  from l have l: "l = \<lparr>lease_owned = True, lease_bytes = charge\<rparr>"
    by (auto simp: try_acquire_def Let_def split: if_split_asm)
  have new: "holder_lease s h \<noteq> Some i" for h using lease_aliveD [OF poll_reserves(4)] poll_reserves(3) by blast
  show ?case
  proof (rule lease_take [OF poll_reserves(4), where ?h0.0 = "By_thread b" and ?i0.0 = i and ?l0.0 = l])
    fix h i' assume "h \<noteq> By_thread b"
      and h: "holder_lease (s\<lparr>rs_registry := r, rs_builders := (rs_builders s)(b := B_building q i),
        rs_leases := (rs_leases s)(i \<mapsto> l)\<rparr>) h = Some i'"
    then have "holder_lease s h = Some i'" by (cases h) auto
    with new [of h] show "holder_lease s h = Some i' \<and> i' \<noteq> i \<and>
        rs_leases (s\<lparr>rs_registry := r, rs_builders := (rs_builders s)(b := B_building q i),
        rs_leases := (rs_leases s)(i \<mapsto> l)\<rparr>) i' = rs_leases s i'" by auto
  next
    fix h c assume "h \<noteq> By_thread b" and "holder_charge (s\<lparr>rs_registry := r, rs_builders := (rs_builders s)(b := B_building q i),
        rs_leases := (rs_leases s)(i \<mapsto> l)\<rparr>) h = Some c"
    then show "holder_charge s h = Some c \<and> holder_lease (s\<lparr>rs_registry := r, rs_builders := (rs_builders s)(b := B_building q i),
        rs_leases := (rs_leases s)(i \<mapsto> l)\<rparr>) h = holder_lease s h"
      using r by (cases h) (auto simp: holder_charge_def)
  qed (use charge l in \<open>auto simp: holder_charge_def\<close>)
next
  case (poll_returns s q r st)
  have "tk_entries r = tk_entries (rs_registry s)" using prepare_poll_returns [OF poll_returns(1)] by auto
  then show ?case by (intro lease_keep [OF poll_returns(2)]) (auto simp: holder_unfold split: holder.splits)
next
  case (build_throws s b q i)
  then show ?case by (intro lease_keep [OF build_throws(2)]) (auto simp: holder_unfold split: holder.splits if_split_asm)
next
  case (build_unwinds s b key)
  then show ?case
    by (intro lease_keep [OF build_unwinds(2)])
      (auto simp: holder_unfold release_reservation_def split: holder.splits if_split_asm)
next
  case (build_returns s b q i e l charge c l')
  let ?t = "s\<lparr>rs_registry := (rs_registry s)\<lparr>tk_admission := c\<rparr>, rs_builders := (rs_builders s)(b := B_built e i),
     rs_leases := (rs_leases s)(i \<mapsto> l')\<rparr>"
  have own: "holder_lease s (By_thread b) = Some i" using build_returns(1) by simp
  note eff = lease_shrink_effect [OF build_returns(6)]
  show ?case
  proof (rule lease_take [OF build_returns(7), where ?h0.0 = "By_thread b" and ?i0.0 = i and ?l0.0 = l'])
    fix h i' assume h: "h \<noteq> By_thread b" "holder_lease ?t h = Some i'"
    then have "holder_lease s h = Some i'" by (cases h) auto
    moreover from this have "i' \<noteq> i" using lease_injD [OF build_returns(7) own, of h] h(1) by auto
    ultimately show "holder_lease s h = Some i' \<and> i' \<noteq> i \<and> rs_leases ?t i' = rs_leases s i'" by simp
  next
    fix h d assume "h \<noteq> By_thread b" and "holder_charge ?t h = Some d"
    then show "holder_charge s h = Some d \<and> holder_lease ?t h = holder_lease s h"
      by (cases h) (auto simp: holder_charge_def)
  qed (use build_returns(2,5) eff in \<open>auto simp: holder_charge_def entry_charge_def\<close>)
next
  case (register_stopping s b e i r gpu)
  have "tk_entries r = tk_entries (rs_registry s)" using prepare_register_stopping [OF register_stopping(2)] by simp
  then show ?case
    by (intro lease_keep [OF register_stopping(3)]) (auto simp: holder_unfold split: holder.splits if_split_asm)
next
  case (register_done s b e i r cancelled)
  let ?t = "s\<lparr>rs_registry := r, rs_builders := (rs_builders s)(b := B_idle), rs_owner := (rs_owner s)(ee_ticket e \<mapsto> i)\<rparr>"
  have own: "holder_lease s (By_thread b) = Some i" using register_done(1) by simp
  have "tk_entries (rs_registry s) (ee_ticket e) = None"
    using register_done(1) by (intro builder_ticketD [OF register_done(4), of b]) simp
  with register_done(2) have r: "tk_entries r = (tk_entries (rs_registry s))(ee_ticket e \<mapsto> e)"
    by (auto elim!: prepare_register_done)
  have "holder_charge s (By_thread b) = Some (entry_charge e)" using register_done(1) by (simp add: holder_charge_def)
  then obtain l where l: "rs_leases s i = Some l" "lease_owned l" "entry_charge e = Inr (lease_bytes l)"
    using own by (auto elim: lease_chargeD [OF register_done(3)])
  show ?case
  proof (rule lease_take [OF register_done(3), where ?h0.0 = "By_entry (ee_ticket e)" and ?i0.0 = i and ?l0.0 = l])
    fix h i' assume h: "h \<noteq> By_entry (ee_ticket e)" "holder_lease ?t h = Some i'"
    then have "holder_lease s h = Some i' \<and> h \<noteq> By_thread b" by (cases h) (auto split: if_split_asm)
    moreover from this have "i' \<noteq> i" using lease_injD [OF register_done(3) own, of h] by auto
    ultimately show "holder_lease s h = Some i' \<and> i' \<noteq> i \<and> rs_leases ?t i' = rs_leases s i'" by simp
  next
    fix h d assume "h \<noteq> By_entry (ee_ticket e)" and "holder_charge ?t h = Some d"
    then show "holder_charge s h = Some d \<and> holder_lease ?t h = holder_lease s h"
      using r by (cases h) (auto simp: holder_charge_def split: if_split_asm)
  qed (use l r in auto)
next
  case (entry_moves s t e e')
  then show ?case
    by (intro lease_keep [OF entry_moves(3)])
      (auto simp: holder_unfold same_execution_charge split: holder.splits if_split_asm)
next
  case (removes s t)
  then show ?case
    by (intro lease_keep [OF removes(1)]) (auto simp: holder_unfold tk_remove_def split: holder.splits option.splits if_split_asm)
next
  case (cancel_key s key r res)
  have "tk_entries r = tk_entries (rs_registry s)" using cancel_key_poll_fields [OF cancel_key(1)] by auto
  then show ?case by (intro lease_keep [OF cancel_key(2)]) (auto simp: holder_unfold split: holder.splits)
next
  case (seal s r first)
  have "tk_entries r = tk_entries (rs_registry s)" using seal_fields [OF seal(1)] by auto
  then show ?case by (intro lease_keep [OF seal(2)]) (auto simp: holder_unfold split: holder.splits)
next
  case (stop s)
  then show ?case
    by (intro lease_keep [OF stop(1)]) (auto simp: holder_unfold stop_admission_def split: holder.splits)
next
  case (clear s)
  then show ?case
    by (intro lease_keep [OF clear(2)]) (auto simp: holder_unfold shutdown_clear_def split: holder.splits)
next
  case (lease_dies s i l c l')
  have "builder_lease (rs_builders s b) \<noteq> Some i" "rs_owner s k \<noteq> Some i" for b k
    using lease_dies(2) unfolding lease_held_def by blast+
  then show ?case
    by (intro lease_keep [OF lease_dies(4)]) (auto simp: holder_unfold split: holder.splits if_split_asm)
qed

section \<open>The whole invariant\<close>

text \<open>\<^verbatim>\<open>max_active_tickets\<close> is a \<^verbatim>\<open>size_t\<close>; a limit outside 64 bits has no meaning.\<close>

definition registry_inv :: "nat \<Rightarrow> registry_system \<Rightarrow> bool" where
  "registry_inv max_active s \<longleftrightarrow>
     (max_active < 2 ^ 64 \<longrightarrow> room_inv max_active s) \<and> record_inv s \<and> builder_inv s \<and> lease_inv s"

lemma registry_init_inv: "registry_init capacity s \<Longrightarrow> registry_inv max_active s"
  by (simp add: registry_init_def registry_inv_def room_inv_def record_inv_def builder_inv_def lease_inv_def
      busy_def new_ticket_registry_def holder_lease_def holder_charge_def split: holder.splits)

lemma registry_step_inv: "registry_inv max_active s \<Longrightarrow> registry_step max_active s t \<Longrightarrow> registry_inv max_active t"
  unfolding registry_inv_def using room_step record_step builder_step lease_step by blast

text \<open>The GPU seal is a latch of the registry.\<close>

lemma registry_step_sealed:
  assumes "registry_step max_active s t"
  shows "(tk_gpu_unavailable (rs_registry s) \<longrightarrow> tk_gpu_unavailable (rs_registry t)) \<and>
    (tk_stopped (rs_registry s) \<longrightarrow> tk_stopped (rs_registry t) \<and>
      dom (tk_entries (rs_registry t)) \<subseteq> dom (tk_entries (rs_registry s)))"
  using assms
proof (induction rule: registry_step.induct)
  case (poll_reserves s b q r l i)
  from poll_reserves(2) show ?case by (rule prepare_poll_reserved) simp
next
  case (poll_returns s q r st)
  then show ?case using prepare_poll_returns by force
next
  case (register_stopping s b e i r gpu)
  then show ?case using prepare_register_stopping by force
next
  case (register_done s b e i r cancelled)
  from register_done(2) show ?case by (rule prepare_register_done) simp
next
  case (cancel_key s key r res)
  then show ?case using cancel_key_poll_fields by force
next
  case (seal s r first)
  then show ?case using seal_fields by force
qed (auto simp: release_reservation_def tk_remove_def stop_admission_def shutdown_clear_def split: option.splits if_split_asm)

interpretation registry_seal: latch "registry_init capacity" "registry_step max_active" "registry_inv max_active"
  "\<lambda>s. if tk_gpu_unavailable (rs_registry s) then Some () else None"
  for capacity max_active
  by unfold_locales (use registry_init_inv registry_step_inv registry_step_sealed in \<open>auto split: if_split_asm\<close>)

lemma stopped_entries_shrink:
  assumes "(registry_step max_active)\<^sup>*\<^sup>* s t" and "tk_stopped (rs_registry s)"
  shows "tk_stopped (rs_registry t) \<and> dom (tk_entries (rs_registry t)) \<subseteq> dom (tk_entries (rs_registry s))"
  using assms by (induction rule: rtranclp_induct) (use registry_step_sealed in blast)+

lemma registry_reachable_parts:
  assumes "reachable (registry_init capacity) (registry_step max_active) s"
  shows "max_active < 2 ^ 64 \<Longrightarrow> room_inv max_active s" and "record_inv s" and "builder_inv s" and "lease_inv s"
  using registry_seal.reachable_inv [OF assms] by (simp_all add: registry_inv_def)

text \<open>The steps of the entry machine are steps of the registry: they keep the execution.\<close>

lemma same_execution_inputs:
  "dom (reg_inputs r) = dom (reg_inputs (ee_inputs e)) \<Longrightarrow> same_execution e (e\<lparr>ee_inputs := r\<rparr>)"
  by (simp add: same_execution_def)

lemma same_execution_ops [simp]:
  "same_execution e e" "same_execution e (ee_join e)"
  "same_execution e (finish_begin status e)" "same_execution e (terminate_end u e)"
  "same_execution e (ee_cancel_inputs err e)" "same_execution e (finish_inputs outcome e)"
  "same_execution e (attach_input_count e)" "same_execution e (detach_input_begin e ref)"
  by (auto simp: same_execution_def ee_join_def finish_begin_def terminate_end_def ee_cancel_inputs_def
      finish_inputs_def attach_input_count_def detach_input_begin_def reg_cancel_all_def reg_mark_all_not_needed_def
      handler_attached_def handler_detached_def split: if_splits)

lemma same_execution_results:
  "ee_claim e = (e', ok) \<Longrightarrow> same_execution e e'"
  "ee_start e = (e', created) \<Longrightarrow> same_execution e e'"
  "publish_frame e payload = Inr (e', frame) \<Longrightarrow> same_execution e e'"
  "publish_put e frame = Some e' \<Longrightarrow> same_execution e e'"
  "maybe_notify_terminal e = (e', n) \<Longrightarrow> same_execution e e'"
  "terminate_begin status e = Some (e', u) \<Longrightarrow> same_execution e e'"
  "read_next_poll e c now = (e', res) \<Longrightarrow> same_execution e e'"
  "attach_input_begin e ref = (e', st) \<Longrightarrow> same_execution e e'"
  by (auto simp: same_execution_def ee_claim_def ee_start_def publish_frame_def publish_put_def maybe_notify_terminal_def terminate_begin_def
      read_next_poll_def attach_input_begin_def reg_find_def Let_def
      split: if_split_asm option.split_asm prod.split_asm)

lemma entry_step_same_execution: "entry_step s t \<Longrightarrow> same_execution (es_entry s) (es_entry t)"
  by (induction rule: entry_step.induct)
    (auto intro: same_execution_results same_execution_inputs simp: inputs_internal_def)

section \<open>A concrete run\<close>

text \<open>A request is prepared, published, and then the GPU generation is sealed.\<close>

definition demo_ticket_entry :: execution_entry where
  "demo_ticket_entry = new_execution_entry demo_charge_request [7] new_input_registry"

definition demo_charge :: u64 where
  "demo_charge = projr (entry_charge demo_ticket_entry)"

lemma demo_charge: "entry_charge demo_ticket_entry = Inr demo_charge"
proof -
  have "reg_size new_input_registry = 0" by (simp add: new_input_registry_def reg_size_def)
  then obtain c where "entry_charge demo_ticket_entry = Inr c"
    using stream_execution_charge_ok [OF demo_charge_limits, of 0]
    by (auto simp: entry_charge_def demo_ticket_entry_def new_execution_entry_def)
  then show ?thesis by (simp add: demo_charge_def)
qed

definition demo_registry0 :: registry_system where
  "demo_registry0 =
     \<lparr>rs_registry = new_ticket_registry u64_max, rs_builders = (\<lambda>_. B_idle), rs_leases = Map.empty, rs_owner = Map.empty\<rparr>"

definition demo_poll :: ticket_registry where
  "demo_poll = fst (projr (prepare_poll 4 (new_ticket_registry u64_max) demo_charge_request))"

lemma demo_poll:
  "prepare_poll 4 (new_ticket_registry u64_max) demo_charge_request =
     Inr (demo_poll, Prep_reserved \<lparr>lease_owned = True, lease_bytes = demo_full_charge\<rparr>)"
proof -
  have "\<not> demo_full_charge > u64_max"
    using unat_u64_less [of demo_full_charge] by (simp add: u64_max_def word_less_nat_alt)
  then show ?thesis
    by (simp add: demo_poll_def prepare_poll_def new_ticket_registry_def demo_full_charge try_acquire_def
        new_controller_def Let_def)
qed

lemma demo_poll_fields:
  "tk_entries demo_poll = Map.empty" "\<not> tk_stopped demo_poll"
  "tk_idempotency demo_poll (er_idempotency_key demo_charge_request) =
     Some \<lparr>ir_fingerprint = er_fingerprint demo_charge_request, ir_ticket = [],
       ir_deadline_unix_ms = er_deadline_unix_ms demo_charge_request, ir_preparing = True, ir_cancel_requested = False\<rparr>"
proof -
  have "\<not> demo_full_charge > u64_max"
    using unat_u64_less [of demo_full_charge] by (simp add: u64_max_def word_less_nat_alt)
  then show "tk_entries demo_poll = Map.empty" "\<not> tk_stopped demo_poll"
    "tk_idempotency demo_poll (er_idempotency_key demo_charge_request) =
       Some \<lparr>ir_fingerprint = er_fingerprint demo_charge_request, ir_ticket = [],
         ir_deadline_unix_ms = er_deadline_unix_ms demo_charge_request, ir_preparing = True, ir_cancel_requested = False\<rparr>"
    by (simp_all add: demo_poll_def prepare_poll_def new_ticket_registry_def demo_full_charge try_acquire_def
        new_controller_def Let_def)
qed

definition demo_registry1 :: registry_system where
  "demo_registry1 =
     demo_registry0\<lparr>rs_registry := demo_poll, rs_builders := (\<lambda>_. B_idle)(0 := B_building demo_charge_request 0),
       rs_leases := [0 \<mapsto> \<lparr>lease_owned = True, lease_bytes = demo_full_charge\<rparr>]\<rparr>"

lemma demo_registry0_reachable: "reachable (registry_init u64_max) (registry_step 4) demo_registry0"
  by (rule reachable.initially) (simp add: registry_init_def demo_registry0_def)

lemma demo_registry1_reachable: "reachable (registry_init u64_max) (registry_step 4) demo_registry1"
proof (rule reachable.stepwise [OF demo_registry0_reachable])
  show "registry_step 4 demo_registry0 demo_registry1"
    using registry_step.poll_reserves [of demo_registry0 0 4 demo_charge_request demo_poll _ 0] demo_poll
    by (simp add: demo_registry0_def demo_registry1_def)
qed

definition demo_shrunk :: "stream_admission_controller \<times> lease" where
  "demo_shrunk = projr (lease_shrink (tk_admission demo_poll) \<lparr>lease_owned = True, lease_bytes = demo_full_charge\<rparr> demo_charge)"

lemma demo_charge_le: "demo_charge \<le> demo_full_charge"
proof -
  have "reg_size new_input_registry = 0" by (simp add: new_input_registry_def reg_size_def)
  then have "stream_execution_charge demo_charge_request 0 = Inr demo_charge"
    using demo_charge by (simp add: entry_charge_def demo_ticket_entry_def new_execution_entry_def)
  then have "unat demo_charge = charge_spec demo_charge_request 0"
    using stream_execution_charge_ok [OF demo_charge_limits, of 0] by auto
  moreover have "unat demo_full_charge = charge_spec demo_charge_request 16"
    using stream_execution_charge_ok [OF demo_charge_limits, of 16] demo_full_charge by (auto simp: k_max_stream_inputs_def)
  ultimately show ?thesis using charge_spec_mono [of 0 16 demo_charge_request] by (simp add: word_le_nat_alt)
qed

lemma demo_shrunk:
  "lease_shrink (tk_admission demo_poll) \<lparr>lease_owned = True, lease_bytes = demo_full_charge\<rparr> demo_charge = Inr demo_shrunk"
proof -
  have "is_ok (lease_shrink (adm_controller (registry_admission demo_registry1))
      \<lparr>lease_owned = True, lease_bytes = demo_full_charge\<rparr> demo_charge)"
    using lease_shrink_total [OF registry_refines.reachable_abs [OF demo_registry1_reachable], of 0] demo_charge_le
    by (simp add: registry_admission_def demo_registry1_def)
  then show ?thesis by (auto simp: registry_admission_def demo_registry1_def demo_shrunk_def is_ok_iff)
qed

definition demo_registry2 :: registry_system where
  "demo_registry2 =
     demo_registry1\<lparr>rs_registry := demo_poll\<lparr>tk_admission := fst demo_shrunk\<rparr>,
       rs_builders := (\<lambda>_. B_idle)(0 := B_built demo_ticket_entry 0), rs_leases := [0 \<mapsto> snd demo_shrunk]\<rparr>"

lemma demo_registry2_reachable: "reachable (registry_init u64_max) (registry_step 4) demo_registry2"
proof (rule reachable.stepwise [OF demo_registry1_reachable])
  have "fresh_ticket demo_registry1 [7]"
    by (simp add: fresh_ticket_def tk_contains_def demo_registry1_def demo_poll_fields)
  then show "registry_step 4 demo_registry1 demo_registry2"
    using registry_step.build_returns [of demo_registry1 0 demo_charge_request 0 demo_ticket_entry _ demo_charge
        "fst demo_shrunk" "snd demo_shrunk" 4] demo_shrunk demo_charge
    by (simp add: demo_registry1_def demo_registry2_def demo_registry0_def entry_charge_def demo_ticket_entry_def
        new_execution_entry_def)
qed

definition demo_registered :: ticket_registry where
  "demo_registered = fst (projr (prepare_register (rs_registry demo_registry2) demo_ticket_entry))"

definition demo_registry3 :: registry_system where
  "demo_registry3 = demo_registry2\<lparr>rs_registry := demo_registered, rs_builders := (\<lambda>_. B_idle), rs_owner := [[7] \<mapsto> 0]\<rparr>"

lemma demo_registered: "prepare_register (rs_registry demo_registry2) demo_ticket_entry = Inr (demo_registered, Reg_done False)"
  and demo_registered_entries: "tk_entries demo_registered = [[7] \<mapsto> demo_ticket_entry]"
  by (simp_all add: demo_registered_def prepare_register_def demo_registry2_def Let_def demo_poll_fields
      ee_idempotency_key_def demo_ticket_entry_def new_execution_entry_def)

lemma demo_registry3_reachable: "reachable (registry_init u64_max) (registry_step 4) demo_registry3"
proof (rule reachable.stepwise [OF demo_registry2_reachable])
  show "registry_step 4 demo_registry2 demo_registry3"
    using registry_step.register_done [of demo_registry2 0 demo_ticket_entry 0 demo_registered False 4] demo_registered
      fun_upd_triv [of "\<lambda>_. B_idle" "0 :: nat"]
    by (simp add: demo_registry2_def demo_registry3_def demo_registry1_def demo_registry0_def
        demo_ticket_entry_def new_execution_entry_def)
qed

definition demo_registry4 :: registry_system where
  "demo_registry4 = demo_registry3\<lparr>rs_registry := fst (seal_gpu_unavailable demo_registered)\<rparr>"

lemma demo_registry4_step: "registry_step 4 demo_registry3 demo_registry4"
  using registry_step.seal [of demo_registry3 "fst (seal_gpu_unavailable demo_registered)" _ 4]
  by (simp add: demo_registry3_def demo_registry4_def prod_eq_iff)

lemma demo_registry4_sealed: "tk_gpu_unavailable (rs_registry demo_registry4)"
  by (simp add: demo_registry4_def seal_gpu_unavailable_def)

section \<open>Properties of the registry\<close>

text \<open>
  C29: In every interleaving of preparations, publications, claims, cancellations, reaping, GPU
  failure and shutdown, the registered executions and the reservations together never exceed
  max_active, and the 64-bit reservation counter equals the number of preparations under way, so
  it never underflows or leaks.
\<close>

theorem registry_capacity:
  assumes "reachable (registry_init capacity) (registry_step max_active) s" and "max_active < 2 ^ 64"
  shows "card (dom (tk_entries (rs_registry s))) + unat (tk_reserved (rs_registry s)) \<le> max_active \<and>
    unat (tk_reserved (rs_registry s)) = card (busy s)"
proof -
  have inv: "room_inv max_active s" by (rule registry_reachable_parts(1) [OF assms])
  then have "unat (tk_reserved (rs_registry s)) = card (busy s)"
    using assms(2) by (simp add: room_inv_def unat_of_nat_u64)
  then show ?thesis using inv by (simp add: room_inv_def)
qed

theorem registry_capacity_witness:
  "card (dom (tk_entries (rs_registry demo_registry3))) + unat (tk_reserved (rs_registry demo_registry3)) \<le> 4"
  using registry_capacity [OF demo_registry3_reachable] by simp









text \<open>
  C32: Publishing a built execution never throws: its idempotency record is still there and its
  ticket is new; it gives back its reservation, and the execution is entered under its ticket
  unless the registry was stopped meanwhile, in which case its record is removed and nothing is
  entered.
\<close>

theorem registry_publishes:
  assumes "reachable (registry_init capacity) (registry_step max_active) s" and "rs_builders s b = B_built e i"
  shows "\<exists>r res. prepare_register (rs_registry s) e = Inr (r, res) \<and> tk_reserved r = tk_reserved (rs_registry s) - 1 \<and>
    (if tk_stopped (rs_registry s) then tk_entries r = tk_entries (rs_registry s) \<and> tk_idempotency r (ee_idempotency_key e) = None
     else tk_entries r = (tk_entries (rs_registry s))(ee_ticket e \<mapsto> e) \<and> tk_entries (rs_registry s) (ee_ticket e) = None)"
proof -
  have key: "builder_key (rs_builders s b) = Some (ee_idempotency_key e)"
    and ticket: "builder_ticket (rs_builders s b) = Some (ee_ticket e)" using assms(2) by simp_all
  note rec = record_builderD [OF registry_reachable_parts(2) [OF assms(1)] key]
  note free = builder_ticketD [OF registry_reachable_parts(3) [OF assms(1)] ticket]
  show ?thesis using rec free by (auto simp: prepare_register_def Let_def split: option.splits)
qed

theorem registry_publishes_witness:
  "\<exists>r res. prepare_register (rs_registry demo_registry2) demo_ticket_entry = Inr (r, res)"
  using registry_publishes [OF demo_registry2_reachable, of 0 demo_ticket_entry 0] by (auto simp: demo_registry2_def)

text \<open>
  C33: Once the GPU generation is sealed, in every later state every prepare is answered
  GPU_DEVICE_UNAVAILABLE and every claim is refused without any change, sealing again reports that
  it was not first, and no execution is added.
\<close>

theorem registry_sealed_forever:
  assumes "reachable (registry_init capacity) (registry_step max_active) s" and "(registry_step max_active)\<^sup>*\<^sup>* s t"
    and "tk_gpu_unavailable (rs_registry s)"
  shows "prepare_poll max_active (rs_registry t) q = Inr (rs_registry t, Prep_return gpu_status) \<and>
    tk_claim (rs_registry t) ticket = (rs_registry t, None) \<and> \<not> snd (seal_gpu_unavailable (rs_registry t)) \<and>
    dom (tk_entries (rs_registry t)) \<subseteq> dom (tk_entries (rs_registry s))"
proof -
  have gpu: "tk_gpu_unavailable (rs_registry t)"
    using registry_seal.latched_forever [OF assms(2,1), of "()"] assms(3) by (simp split: if_split_asm)
  have "tk_stopped (rs_registry s)" using record_gpuD registry_reachable_parts(2) [OF assms(1)] assms(3) by blast
  from stopped_entries_shrink [OF assms(2) this] gpu show ?thesis
    by (simp add: prepare_poll_def tk_claim_def tk_lookup_def seal_gpu_unavailable_def stopping_status_def gpu_status_def)
qed

theorem registry_sealed_forever_witness:
  "prepare_poll 4 (rs_registry demo_registry4) demo_charge_request = Inr (rs_registry demo_registry4, Prep_return gpu_status)"
  using registry_sealed_forever [OF reachable.stepwise [OF demo_registry3_reachable demo_registry4_step] rtranclp.rtrancl_refl
      demo_registry4_sealed] by blast

end
