(* ===== verification/Native_Result.thy ===== *)
theory Native_Result
  imports Native_Batch Stream_Input
begin

text \<open>
  The encoder of MatrixOne native batches in \<^verbatim>\<open>native_result.cpp\<close>, for DuckDB chunks
  (\<^verbatim>\<open>encode_native_result_batch\<close>) and for Sirius host tables (\<^verbatim>\<open>native_result_batch_encoder\<close>), and the
  splitting loop \<^verbatim>\<open>consume_batch\<close> of \<^verbatim>\<open>flight_runtime.cpp\<close>.

  Sirius, cuCascade and the GPU packer are parameters: a host table is the data that the code reads
  through their accessors, and a GPU table is a value of an unknown type with the operations of
  \<open>gpu_ops\<close>.  Row numbers are \<open>nat\<close>; buffer offsets are 64-bit words and wrap.
\<close>

section \<open>Appending\<close>

text \<open>\<^verbatim>\<open>value > numeric_limits<uint32_t>::max()\<close>\<close>

definition exceeds_u32 :: "nat \<Rightarrow> bool" where
  "exceeds_u32 n \<longleftrightarrow> int n > 0xffffffff"

lemma exceeds_u32_iff [simp]: "exceeds_u32 n \<longleftrightarrow> n > 0xffffffff"
  by (simp add: exceeds_u32_def)

definition append_u32 :: "bytes \<Rightarrow> nat \<Rightarrow> string \<Rightarrow> bytes res" where
  "append_u32 out v what =
     (if exceeds_u32 v then Inl (Overflow_error (what @ '' exceeds the MO native batch format''))
      else Inr (out @ store_le 4 (of_nat v :: u32)))"

definition mo_type_size :: "tae_abi \<Rightarrow> u32 \<Rightarrow> int" where
  "mo_type_size abi oid =
     (let fixed = MOTypeFixedSize abi (unat oid) in if fixed < 0 then int (VARLENA_SIZE abi) else fixed)"

definition is_text :: "tae_abi \<Rightarrow> u32 \<Rightarrow> bool" where
  "is_text abi oid \<longleftrightarrow> unat oid = MO_T_char abi \<or> unat oid = MO_T_varchar abi"

section \<open>Validation of the result schema\<close>

definition expected_duckdb_type :: "tae_abi \<Rightarrow> native_result_column \<Rightarrow> duck_type res" where
  "expected_duckdb_type abi c =
     (let oid = unat (col_oid c) in
      if oid = MO_T_bool abi then Inr D_BOOLEAN
      else if oid = MO_T_int8 abi then Inr D_TINYINT
      else if oid = MO_T_int16 abi then Inr D_SMALLINT
      else if oid = MO_T_int32 abi then Inr D_INTEGER
      else if oid = MO_T_int64 abi \<or> oid = MO_T_uint32 abi then Inr D_BIGINT
      else if oid = MO_T_float32 abi then Inr D_FLOAT
      else if oid = MO_T_float64 abi then Inr D_DOUBLE
      else if oid = MO_T_decimal64 abi \<or> oid = MO_T_decimal128 abi
      then Inr (D_DECIMAL (sint (col_width c)) (sint (col_scale c)))
      else if oid = MO_T_date abi then Inr D_DATE
      else if oid = MO_T_char abi \<or> oid = MO_T_varchar abi then Inr D_VARCHAR
      else Inl (Invalid_argument (''unsupported MO native result OID '' @ to_string oid)))"

text \<open>\<open>type_text\<close> is DuckDB's \<^verbatim>\<open>LogicalType::ToString\<close>.\<close>

definition validate_column ::
  "tae_abi \<Rightarrow> (duck_type \<Rightarrow> string) \<Rightarrow> native_result_column \<Rightarrow> duck_type \<Rightarrow> nat \<Rightarrow> unit res" where
  "validate_column abi type_text wire actual index =
     bindR (expected_duckdb_type abi wire) (\<lambda>expected.
       let oid = unat (col_oid wire);
           decimal_from_double = ((oid = MO_T_decimal64 abi \<or> oid = MO_T_decimal128 abi) \<and> actual = D_DOUBLE);
           decimal128_from_hugeint = (oid = MO_T_decimal128 abi \<and> col_scale wire = 0 \<and> actual = D_HUGEINT) in
       if actual \<noteq> expected \<and> \<not> decimal_from_double \<and> \<not> decimal128_from_hugeint
       then Inl (Invalid_argument (''native result column '' @ to_string index @ '' has DuckDB type '' @
              type_text actual @ ''; expected '' @ type_text expected))
       else if col_charset wire > 0xff then Inl (Invalid_argument ''native result charset exceeds the MO type ABI'')
       else Inr ())"

text \<open>The schema of the prepared execution: names and types.\<close>

record execution_schema =
  xs_names :: "bytes list"
  xs_types :: "duck_type list"

fun validate_columns ::
  "tae_abi \<Rightarrow> (duck_type \<Rightarrow> string) \<Rightarrow> nat \<Rightarrow> native_result_column list \<Rightarrow> bytes list \<Rightarrow> duck_type list \<Rightarrow> unit res" where
  "validate_columns abi type_text i (c # cs) (n # ns) (t # ts) =
     (if col_name c \<noteq> n
      then Inl (Invalid_argument ''native result column name does not match the prepared result'')
      else bindR (validate_column abi type_text c t i) (\<lambda>_. validate_columns abi type_text (Suc i) cs ns ts))"
| "validate_columns abi type_text i _ _ _ = Inr ()"

definition validate_native_result_schema ::
  "tae_abi \<Rightarrow> (duck_type \<Rightarrow> string) \<Rightarrow> native_result_schema \<Rightarrow> execution_schema \<Rightarrow> unit res" where
  "validate_native_result_schema abi type_text wire actual =
     (if sch_version wire \<noteq> k_native_result_schema_version \<or> sch_columns wire = [] \<or>
         length (sch_columns wire) \<noteq> length (xs_types actual) \<or> length (sch_columns wire) \<noteq> length (xs_names actual)
      then Inl (Invalid_argument ''native result schema does not match the prepared result width'')
      else validate_columns abi type_text 0 (sch_columns wire) (xs_names actual) (xs_types actual))"

section \<open>Null bitmaps and varlena descriptors\<close>

record encoded_column =
  ec_data :: bytes
  ec_area :: bytes
  ec_nulls :: bytes

text \<open>\<^verbatim>\<open>words[row / 64] |= 1 << (row % 64)\<close> and \<^verbatim>\<open>++count\<close>.\<close>

definition set_null :: "nat \<Rightarrow> u64 list \<times> u64 \<Rightarrow> u64 list \<times> u64" where
  "set_null row st =
     (case st of (words, count) \<Rightarrow>
        (words[row div 64 := words ! (row div 64) OR push_bit (row mod 64) 1], count + 1))"

definition null_table :: "nat \<Rightarrow> u64 list \<times> u64 \<Rightarrow> bytes" where
  "null_table rows st =
     (case st of (words, count) \<Rightarrow>
        if count = 0 then []
        else store_le 8 count @ store_le 8 (of_nat rows :: u64) @ store_le 8 (of_nat (length words * 8) :: u64) @
          concat (map (store_le 8) words))"

definition no_nulls :: "nat \<Rightarrow> u64 list \<times> u64" where
  "no_nulls rows = (replicate ((rows + 63) div 64) 0, 0)"

definition encode_nulls :: "bool list \<Rightarrow> bytes" where
  "encode_nulls nulls =
     null_table (length nulls)
       (fold (\<lambda>row st. if nulls ! row then set_null row st else st) [0..<length nulls] (no_nulls (length nulls)))"

text \<open>The 24-byte descriptor, zero where nothing is written, and the string area.\<close>

definition inline_varlena :: "bytes \<Rightarrow> bytes" where
  "inline_varlena s = of_nat (length s) # s @ replicate (23 - length s) 0"

definition big_varlena :: "tae_abi \<Rightarrow> nat \<Rightarrow> nat \<Rightarrow> bytes" where
  "big_varlena abi off len =
     store_le 4 (VARLENA_BIG_MARKER abi) @ store_le 4 (of_nat off :: u32) @ store_le 4 (of_nat len :: u32) @ replicate 12 0"

text \<open>\<^verbatim>\<open>area.size() > max || length > max - area.size()\<close>, where the second test is one on the sum.\<close>

definition area_full :: "encoded_column \<Rightarrow> nat \<Rightarrow> bool" where
  "area_full c n \<longleftrightarrow> exceeds_u32 (length (ec_area c)) \<or> exceeds_u32 (length (ec_area c) + n)"

definition append_varlena :: "tae_abi \<Rightarrow> bytes \<Rightarrow> encoded_column \<Rightarrow> encoded_column res" where
  "append_varlena abi s c =
     (if length s \<le> VARLENA_INLINE_MAX abi then Inr (c\<lparr>ec_data := ec_data c @ inline_varlena s\<rparr>)
      else if area_full c (length s)
      then Inl (Overflow_error ''native result string area exceeds uint32'')
      else Inr (c\<lparr>ec_data := ec_data c @ big_varlena abi (length (ec_area c)) (length s),
                  ec_area := ec_area c @ s\<rparr>))"

definition append_data :: "bytes \<Rightarrow> encoded_column \<Rightarrow> encoded_column" where
  "append_data bs c = c\<lparr>ec_data := ec_data c @ bs\<rparr>"

section \<open>DuckDB chunks\<close>

text \<open>A \<^verbatim>\<open>UnifiedVectorFormat\<close>: selection, validity, and the data seen as \<^verbatim>\<open>string_t\<close> values or as bytes.\<close>

record unified_vector =
  uv_sel :: "nat \<Rightarrow> nat"
  uv_valid :: "nat \<Rightarrow> bool"
  uv_strings :: "nat \<Rightarrow> bytes"
  uv_data :: bytes

record data_chunk =
  dc_size :: nat
  dc_columns :: "unified_vector list"

definition empty_encoded :: encoded_column where
  "empty_encoded = \<lparr>ec_data = [], ec_area = [], ec_nulls = []\<rparr>"

text \<open>The bytes a valid fixed-width value contributes.  The MatrixOne epoch is added in 32 bits.\<close>

definition vector_value :: "tae_abi \<Rightarrow> native_result_column \<Rightarrow> unified_vector \<Rightarrow> nat \<Rightarrow> bytes res" where
  "vector_value abi c v source =
     (let width = nat (mo_type_size abi (col_oid c)); oid = unat (col_oid c) in
      if oid = MO_T_uint32 abi then
        bindR (mem_read (uv_data v) (source * 8) 8) (\<lambda>b.
          let x = sint (load_le 8 b 0 :: u64) in
          if x < 0 \<or> x > 0xffffffff
          then Inl (Overflow_error ''Substrait i64 result is outside MatrixOne uint32 range'')
          else Inr (store_le 4 (word_of_int x :: u32)))
      else if oid = MO_T_date abi then
        bindR (mem_read (uv_data v) (source * 4) 4) (\<lambda>b.
          let x = sint (load_le 4 b 0 :: u32) in
          if x > 0x7fffffff - MO_UNIX_EPOCH_DAYS abi
          then Inl (Overflow_error ''DuckDB date is outside MatrixOne date range'')
          else Inr (store_le 4 (word_of_int (x + MO_UNIX_EPOCH_DAYS abi) :: u32)))
      else mem_read (uv_data v) (source * width) width)"

definition encode_column_row ::
  "tae_abi \<Rightarrow> native_result_column \<Rightarrow> unified_vector \<Rightarrow> nat \<Rightarrow> nat \<Rightarrow>
    encoded_column \<times> (u64 list \<times> u64) \<Rightarrow> (encoded_column \<times> (u64 list \<times> u64)) res" where
  "encode_column_row abi c v row_offset row st =
     (case st of (out, nulls) \<Rightarrow>
        let source = uv_sel v (row_offset + row); valid = uv_valid v source;
            nulls' = (if valid then nulls else set_null row nulls) in
        if \<not> valid \<and> col_not_nullable c
        then Inl (Invalid_argument ''required native result column contains nulls'')
        else if is_text abi (col_oid c) then
          (if valid then bindR (append_varlena abi (uv_strings v source) out) (\<lambda>out'. Inr (out', nulls'))
           else Inr (append_data (replicate 24 0) out, nulls'))
        else if \<not> valid then Inr (append_data (replicate (nat (mo_type_size abi (col_oid c))) 0) out, nulls')
        else bindR (vector_value abi c v source) (\<lambda>b. Inr (append_data b out, nulls')))"

definition encode_column ::
  "tae_abi \<Rightarrow> unified_vector \<Rightarrow> nat \<Rightarrow> nat \<Rightarrow> native_result_column \<Rightarrow> encoded_column res" where
  "encode_column abi v row_offset row_count c =
     bindR (foldR (encode_column_row abi c v row_offset) [0..<row_count] (empty_encoded, no_nulls row_count))
       (\<lambda>(out, nulls). Inr (out\<lparr>ec_nulls := null_table row_count nulls\<rparr>))"

section \<open>Host tables\<close>

datatype cudf_type_id =
    T_BOOL8 | T_INT8 | T_INT16 | T_INT32 | T_INT64 | T_FLOAT32 | T_FLOAT64 | T_DECIMAL32 | T_DECIMAL64
  | T_DECIMAL128 | T_TIMESTAMP_DAYS | T_STRING | T_OTHER

datatype column_metadata =
  Column_metadata
    (cm_type_id: cudf_type_id) (cm_scale: int) (cm_num_rows: int)
    (cm_has_data: bool) (cm_data_offset: u64) (cm_data_size: u64)
    (cm_has_null_mask: bool) (cm_null_mask_offset: u64) (cm_null_mask_size: u64)
    (cm_children: "column_metadata list")

record host_allocation =
  ha_block_size :: nat
  ha_size_bytes :: nat
  ha_blocks :: "bytes list"

text \<open>The loop of \<^verbatim>\<open>copy_host_bytes\<close>.  A division by a zero block size and an index outside the block
  table are undefined behaviour.\<close>

function copy_loop :: "host_allocation \<Rightarrow> nat \<Rightarrow> nat \<Rightarrow> bytes res" where
  "copy_loop a off n =
     (if n = 0 then Inr []
      else if ha_block_size a = 0 then Inl (Undefined_behaviour ''division by zero'')
      else
        let block = off div ha_block_size a;
            in_block = off mod ha_block_size a;
            count = min n (ha_block_size a - in_block) in
        if block \<ge> length (ha_blocks a) then Inl (Undefined_behaviour ''read outside the block table'')
        else
          bindR (mem_read (ha_blocks a ! block) in_block count) (\<lambda>chunk.
          bindR (copy_loop a (off + count) (n - count)) (\<lambda>rest. Inr (chunk @ rest))))"
  by pat_completeness auto

text \<open>Every pass copies at least one byte.\<close>

termination copy_loop
  by (relation "measure (\<lambda>(a, off, n). n)") (auto simp: min_def)

declare copy_loop.simps [simp del]

definition copy_host_bytes :: "host_allocation option \<Rightarrow> u64 \<Rightarrow> nat \<Rightarrow> bytes res" where
  "copy_host_bytes allocation off n =
     (case allocation of
        None \<Rightarrow> Inl (Invalid_argument ''native result host buffer range is invalid'')
      | Some a \<Rightarrow>
          if unat off > ha_size_bytes a \<or> n > ha_size_bytes a - unat off
          then Inl (Invalid_argument ''native result host buffer range is invalid'')
          else copy_loop a (unat off) n)"

text \<open>\<^verbatim>\<open>read_host_scalar\<close> of the widths the code uses.\<close>

definition read_host_scalar :: "nat \<Rightarrow> host_allocation option \<Rightarrow> u64 \<Rightarrow> 'a::len word res" where
  "read_host_scalar n allocation off = bindR (copy_host_bytes allocation off n) (\<lambda>b. Inr (load_le n b 0))"

definition source_type_matches :: "tae_abi \<Rightarrow> column_metadata \<Rightarrow> native_result_column \<Rightarrow> bool" where
  "source_type_matches abi m c =
     (let oid = unat (col_oid c); ty = cm_type_id m in
      if oid = MO_T_bool abi then ty = T_BOOL8
      else if oid = MO_T_int8 abi then ty = T_INT8
      else if oid = MO_T_int16 abi then ty = T_INT16
      else if oid = MO_T_int32 abi then ty = T_INT32
      else if oid = MO_T_int64 abi \<or> oid = MO_T_uint32 abi then ty = T_INT64
      else if oid = MO_T_float32 abi then ty = T_FLOAT32
      else if oid = MO_T_float64 abi then ty = T_FLOAT64
      else if oid = MO_T_decimal64 abi
      then ((ty = T_DECIMAL32 \<or> ty = T_DECIMAL64) \<and> cm_scale m = - sint (col_scale c)) \<or> ty = T_FLOAT64
      else if oid = MO_T_decimal128 abi
      then (ty = T_DECIMAL128 \<and> cm_scale m = - sint (col_scale c)) \<or> ty = T_FLOAT64 \<or>
           (ty = T_INT64 \<and> sint (col_scale c) = 0)
      else if oid = MO_T_date abi then ty = T_TIMESTAMP_DAYS
      else if oid = MO_T_char abi \<or> oid = MO_T_varchar abi then ty = T_STRING
      else False)"

text \<open>The bit of the null mask; a clear bit is a null.\<close>

definition read_null_bit :: "column_metadata \<Rightarrow> host_allocation option \<Rightarrow> nat \<Rightarrow> bool res" where
  "read_null_bit m allocation source =
     bindR (read_host_scalar 1 allocation (cm_null_mask_offset m + of_nat (source div 8))) (\<lambda>b :: byte.
       Inr (\<not> bit b (source mod 8)))"

definition mask_too_short :: "column_metadata \<Rightarrow> nat \<Rightarrow> nat \<Rightarrow> bool" where
  "mask_too_short m row_offset row_count \<longleftrightarrow> unat (cm_null_mask_size m) < (row_offset + row_count + 7) div 8"

definition read_nulls :: "column_metadata \<Rightarrow> host_allocation option \<Rightarrow> nat \<Rightarrow> nat \<Rightarrow> bool \<Rightarrow> bool list res" where
  "read_nulls m allocation row_offset row_count required =
     (if \<not> cm_has_null_mask m then Inr (replicate row_count False)
      else if mask_too_short m row_offset row_count
      then Inl (Invalid_argument ''Sirius result null mask is shorter than its row range'')
      else mapR (\<lambda>row. bindR (read_null_bit m allocation (row_offset + row)) (\<lambda>null.
             if required \<and> null then Inl (Invalid_argument ''required native result column contains nulls'')
             else Inr null)) [0..<row_count])"

text \<open>The offset of a row in the child column; a signed offset is extended to 64 bits.\<close>

definition offset_at :: "column_metadata \<Rightarrow> host_allocation option \<Rightarrow> nat \<Rightarrow> u64 res" where
  "offset_at offsets allocation row =
     (if cm_type_id offsets = T_INT32
      then bindR (read_host_scalar 4 allocation (cm_data_offset offsets + of_nat (row * 4))) (\<lambda>x :: u32. Inr (scast x))
      else read_host_scalar 8 allocation (cm_data_offset offsets + of_nat (row * 8)))"

definition offset_width :: "column_metadata \<Rightarrow> nat" where
  "offset_width offsets = (if cm_type_id offsets = T_INT32 then 4 else 8)"

definition offsets_truncated :: "column_metadata \<Rightarrow> column_metadata \<Rightarrow> bool" where
  "offsets_truncated m offsets \<longleftrightarrow>
     unat (cm_data_size offsets) < (nat (cm_num_rows m) + 1) * offset_width offsets"

definition string_range :: "column_metadata \<Rightarrow> column_metadata \<Rightarrow> host_allocation option \<Rightarrow> nat \<Rightarrow> (u64 \<times> u64) res" where
  "string_range m offsets allocation row =
     bindR (offset_at offsets allocation row) (\<lambda>lo.
     bindR (offset_at offsets allocation (row + 1)) (\<lambda>hi.
       if hi < lo \<or> hi > cm_data_size m
       then Inl (Invalid_argument ''Sirius string offsets exceed the character buffer'')
       else Inr (lo, hi)))"

definition host_text_row ::
  "tae_abi \<Rightarrow> column_metadata \<Rightarrow> column_metadata \<Rightarrow> host_allocation option \<Rightarrow> bool list \<Rightarrow> nat \<Rightarrow> nat \<Rightarrow>
    encoded_column \<Rightarrow> encoded_column res" where
  "host_text_row abi m offsets allocation nulls row_offset row out =
     (if nulls ! row then Inr (append_data (replicate 24 0) out)
      else
        bindR (string_range m offsets allocation (row_offset + row)) (\<lambda>(lo, hi).
        let n = unat (hi - lo) in
        if n > VARLENA_INLINE_MAX abi \<and> area_full out n
        then Inl (Overflow_error ''native result string area exceeds uint32'')
        else bindR (copy_host_bytes allocation (cm_data_offset m + lo) n) (\<lambda>s. append_varlena abi s out)))"

text \<open>Floating point: the formats of \<^verbatim>\<open>double\<close> and \<^verbatim>\<open>long double\<close> belong to the platform.\<close>

record 'ld float_ops =
  fl_is_finite_double :: "u64 \<Rightarrow> bool"
  fl_of_double :: "u64 \<Rightarrow> 'ld"
  fl_pow10 :: "int \<Rightarrow> 'ld"
  fl_mult :: "'ld \<Rightarrow> 'ld \<Rightarrow> 'ld"
  fl_neg :: "'ld \<Rightarrow> 'ld"
  fl_round :: "'ld \<Rightarrow> 'ld"
  fl_is_finite :: "'ld \<Rightarrow> bool"
  fl_le :: "'ld \<Rightarrow> 'ld \<Rightarrow> bool"
  fl_less :: "'ld \<Rightarrow> 'ld \<Rightarrow> bool"
  fl_of_int :: "int \<Rightarrow> 'ld"
  fl_to_int :: "'ld \<Rightarrow> int"

definition double_to_decimal :: "tae_abi \<Rightarrow> 'ld float_ops \<Rightarrow> native_result_column \<Rightarrow> u64 \<Rightarrow> bytes res" where
  "double_to_decimal abi fl c x =
     (if \<not> fl_is_finite_double fl x
      then Inl (Overflow_error ''non-finite Sirius DOUBLE cannot be encoded as MatrixOne DECIMAL'')
      else
        let rounded = fl_round fl (fl_mult fl (fl_of_double fl x) (fl_pow10 fl (sint (col_scale c))));
            magnitude_limit = fl_pow10 fl (sint (col_width c)) in
        if \<not> fl_is_finite fl rounded \<or> fl_le fl rounded (fl_neg fl magnitude_limit) \<or> fl_le fl magnitude_limit rounded
        then Inl (Overflow_error ''Sirius DOUBLE is outside the MatrixOne DECIMAL range'')
        else if unat (col_oid c) = MO_T_decimal64 abi then
          if fl_less fl rounded (fl_of_int fl (- (2 ^ 63))) \<or> fl_less fl (fl_of_int fl (2 ^ 63 - 1)) rounded
          then Inl (Overflow_error ''Sirius DOUBLE is outside the MatrixOne decimal64 range'')
          else Inr (store_le 8 (word_of_int (fl_to_int fl rounded) :: u64))
        else Inr (store_le 16 (word_of_int (fl_to_int fl rounded) :: 128 word)))"

text \<open>The bytes a valid fixed-width value of a host column contributes.\<close>

definition host_value ::
  "tae_abi \<Rightarrow> 'ld float_ops \<Rightarrow> column_metadata \<Rightarrow> host_allocation option \<Rightarrow> native_result_column \<Rightarrow> nat \<Rightarrow> bytes res" where
  "host_value abi fl m allocation c source =
     (let oid = unat (col_oid c); ty = cm_type_id m; target = nat (mo_type_size abi (col_oid c));
          at = (\<lambda>width. cm_data_offset m + of_nat (source * width)) in
      if oid = MO_T_uint32 abi then
        bindR (read_host_scalar 8 allocation (at 8)) (\<lambda>w :: u64.
          let x = sint w in
          if x < 0 \<or> x > 0xffffffff
          then Inl (Overflow_error ''Substrait i64 result is outside MatrixOne uint32 range'')
          else Inr (store_le 4 (word_of_int x :: u32)))
      else if oid = MO_T_date abi then
        bindR (read_host_scalar 4 allocation (at 4)) (\<lambda>w :: u32.
          let x = sint w in
          if x > 0x7fffffff - MO_UNIX_EPOCH_DAYS abi
          then Inl (Overflow_error ''Sirius date is outside MatrixOne date range'')
          else Inr (store_le 4 (word_of_int (x + MO_UNIX_EPOCH_DAYS abi) :: u32)))
      else if oid = MO_T_decimal64 abi \<and> ty = T_DECIMAL32 then
        bindR (read_host_scalar 4 allocation (at 4)) (\<lambda>w :: u32. Inr (store_le 8 (scast w :: u64)))
      else if (oid = MO_T_decimal64 abi \<or> oid = MO_T_decimal128 abi) \<and> ty = T_FLOAT64 then
        bindR (read_host_scalar 8 allocation (at 8)) (double_to_decimal abi fl c)
      else if oid = MO_T_decimal128 abi \<and> sint (col_scale c) = 0 \<and> ty = T_INT64 then
        bindR (read_host_scalar 8 allocation (at 8)) (\<lambda>w :: u64. Inr (store_le 16 (scast w :: 128 word)))
      else copy_host_bytes allocation (at target) target)"

definition host_source_size :: "tae_abi \<Rightarrow> column_metadata \<Rightarrow> native_result_column \<Rightarrow> nat" where
  "host_source_size abi m c =
     (let oid = unat (col_oid c); ty = cm_type_id m in
      if ty = T_FLOAT64 \<or> oid = MO_T_uint32 abi \<or> (oid = MO_T_decimal128 abi \<and> ty = T_INT64) then 8
      else if oid = MO_T_decimal64 abi \<and> ty = T_DECIMAL32 then 4
      else nat (mo_type_size abi (col_oid c)))"

definition host_fixed_row ::
  "tae_abi \<Rightarrow> 'ld float_ops \<Rightarrow> column_metadata \<Rightarrow> host_allocation option \<Rightarrow> native_result_column \<Rightarrow> bool list \<Rightarrow>
    nat \<Rightarrow> nat \<Rightarrow> encoded_column \<Rightarrow> encoded_column res" where
  "host_fixed_row abi fl m allocation c nulls row_offset row out =
     (if nulls ! row then Inr (append_data (replicate (nat (mo_type_size abi (col_oid c))) 0) out)
      else bindR (host_value abi fl m allocation c (row_offset + row)) (\<lambda>b. Inr (append_data b out)))"

definition encode_host_column ::
  "tae_abi \<Rightarrow> 'ld float_ops \<Rightarrow> column_metadata \<Rightarrow> host_allocation option \<Rightarrow> nat \<Rightarrow> nat \<Rightarrow> native_result_column \<Rightarrow>
    encoded_column res" where
  "encode_host_column abi fl m allocation row_offset row_count c =
     (if \<not> source_type_matches abi m c \<or> cm_num_rows m < 0 \<or> row_offset > nat (cm_num_rows m) \<or>
         row_count > nat (cm_num_rows m) - row_offset
      then Inl (Invalid_argument ''Sirius host result column does not match the MO native schema'')
      else
        bindR (read_nulls m allocation row_offset row_count (col_not_nullable c)) (\<lambda>nulls.
        let out = empty_encoded\<lparr>ec_nulls := encode_nulls nulls\<rparr> in
        if is_text abi (col_oid c) then
          (case cm_children m of
             [offsets] \<Rightarrow>
               if \<not> cm_has_data m \<or> \<not> cm_has_data offsets \<or>
                  (cm_type_id offsets \<noteq> T_INT32 \<and> cm_type_id offsets \<noteq> T_INT64)
               then Inl (Invalid_argument ''Sirius string result has invalid offsets or characters'')
               else if offsets_truncated m offsets
               then Inl (Invalid_argument ''Sirius string result offset buffer is truncated'')
               else foldR (host_text_row abi m offsets allocation nulls row_offset) [0..<row_count] out
           | _ \<Rightarrow> Inl (Invalid_argument ''Sirius string result has invalid offsets or characters''))
        else if \<not> cm_has_data m \<or> unat (cm_data_size m) < nat (cm_num_rows m) * host_source_size abi m c
        then Inl (Invalid_argument ''Sirius fixed-width result buffer is truncated'')
        else foldR (host_fixed_row abi fl m allocation c nulls row_offset) [0..<row_count] out))"

section \<open>Assembling a batch\<close>

definition result_mo_type :: "tae_abi \<Rightarrow> native_result_column \<Rightarrow> mo_type" where
  "result_mo_type abi c =
     \<lparr>mt_oid = ucast (col_oid c), mt_charset = ucast (col_charset c), mt_not_null = of_bool (col_not_nullable c),
      mt_dummy = 0, mt_size = word_of_int (mo_type_size abi (col_oid c)), mt_width = col_width c, mt_scale = col_scale c\<rparr>"

definition assemble_vector :: "tae_abi \<Rightarrow> nat \<Rightarrow> native_result_column \<Rightarrow> encoded_column \<Rightarrow> bytes res" where
  "assemble_vector abi row_count c enc =
     bindR (append_u32 (0 # encode_mo_type (result_mo_type abi c)) row_count ''native result row count'') (\<lambda>v1.
     bindR (append_u32 v1 (length (ec_data enc)) ''native result vector data'') (\<lambda>v2.
     bindR (append_u32 (v2 @ ec_data enc) (length (ec_area enc)) ''native result vector area'') (\<lambda>v3.
     bindR (append_u32 (v3 @ ec_area enc) (length (ec_nulls enc)) ''native result null bitmap'') (\<lambda>v4.
     Inr (v4 @ ec_nulls enc @ [0])))))"

definition assemble_native_batch :: "tae_abi \<Rightarrow> nat \<Rightarrow> native_result_schema \<Rightarrow> encoded_column list \<Rightarrow> bytes res" where
  "assemble_native_batch abi row_count schema columns =
     bindR (foldR (\<lambda>i out.
         bindR (assemble_vector abi row_count (sch_columns schema ! i) (columns ! i)) (\<lambda>v.
         bindR (append_u32 out (length v) ''native result vector'') (\<lambda>out'. Inr (out' @ v))))
       [0..<length columns]
       (store_le 8 (of_nat row_count :: u64) @ store_le 4 (of_nat (length columns) :: u32)))
     (\<lambda>out. Inr (out @ store_le 4 (0 :: u32) @ store_le 4 (0 :: u32) @ store_le 4 (0 :: u32) @ store_le 4 (0 :: u32)))"

text \<open>The DuckDB path builds all vectors first and concatenates them afterwards.\<close>

definition encode_native_result_batch ::
  "tae_abi \<Rightarrow> data_chunk \<Rightarrow> nat \<Rightarrow> nat \<Rightarrow> native_result_schema \<Rightarrow> bytes res" where
  "encode_native_result_batch abi chunk row_offset row_count schema =
     (if row_count = 0 \<or> row_offset > dc_size chunk \<or> row_count > dc_size chunk - row_offset \<or>
         length (dc_columns chunk) \<noteq> length (sch_columns schema)
      then Inl (Invalid_argument ''invalid native result batch range or width'')
      else
        bindR (mapR (\<lambda>i.
            bindR (encode_column abi (dc_columns chunk ! i) row_offset row_count (sch_columns schema ! i))
              (assemble_vector abi row_count (sch_columns schema ! i)))
          [0..<length (sch_columns schema)]) (\<lambda>vectors.
        bindR (foldR (\<lambda>v out. bindR (append_u32 out (length v) ''native result vector'') (\<lambda>out'. Inr (out' @ v)))
          vectors (store_le 8 (of_nat row_count :: u64) @ store_le 4 (of_nat (length vectors) :: u32))) (\<lambda>out.
        Inr (out @ store_le 4 (0 :: u32) @ store_le 4 (0 :: u32) @ store_le 4 (0 :: u32) @ store_le 4 (0 :: u32)))))"

section \<open>The batch encoder\<close>

text \<open>\<^verbatim>\<open>strtoull\<close> in base ten on the value of \<^verbatim>\<open>MO_SIDECAR_GPU_RESULT_PACK_MIN_BYTES\<close>: white space, a sign and
  digits.  The result is the value and the unread rest, or \<open>None\<close> when there are no digits; out of range
  the value is \<^verbatim>\<open>ULLONG_MAX\<close> with \<^verbatim>\<open>errno\<close> set, and a minus sign negates modulo \<open>2 ^ 64\<close>.\<close>

definition is_space :: "char \<Rightarrow> bool" where
  "is_space ch \<longleftrightarrow> (of_char ch :: nat) \<in> {9, 10, 11, 12, 13, 32}"

record strtoull_result =
  su_value :: u64
  su_range_error :: bool
  su_rest :: string

definition strtoull :: "string \<Rightarrow> strtoull_result option" where
  "strtoull s =
     (let s1 = dropWhile is_space s;
          negative = (s1 \<noteq> [] \<and> hd s1 = CHR ''-'');
          s2 = (if s1 \<noteq> [] \<and> (hd s1 = CHR ''-'' \<or> hd s1 = CHR ''+'') then tl s1 else s1);
          digits = takeWhile is_digit s2 in
      if digits = [] then None
      else
        let v = digits_value digits; over = (v > 0xffffffffffffffff) in
        Some \<lparr>su_value = (if over then 0xffffffffffffffff else if negative then - of_nat v else of_nat v),
              su_range_error = over, su_rest = dropWhile is_digit s2\<rparr>)"

definition gpu_pack_threshold :: "string option \<Rightarrow> u64" where
  "gpu_pack_threshold configured =
     (case configured of
        None \<Rightarrow> 1048576
      | Some s \<Rightarrow>
          (case strtoull s of
             None \<Rightarrow> 1048576
           | Some r \<Rightarrow>
               if \<not> su_range_error r \<and> su_rest r = [] then max 65536 (min 67108864 (su_value r)) else 1048576))"

text \<open>A host table, and what the code asks of Sirius about a GPU table.  \<open>gp_to_host\<close> is the clone converted
  to host memory: its tier is host, or not, and then its table is there, or not.\<close>

record host_table =
  ht_allocation :: "host_allocation option"
  ht_columns :: "column_metadata list"

datatype 'g batch_data =
    No_data
  | Gpu_data "'g option"
  | Host_data "host_table option"
  | Other_tier

record 'g gpu_ops =
  gp_rows :: "'g \<Rightarrow> nat"
  gp_can_pack :: "'g \<Rightarrow> native_result_column list \<Rightarrow> u64 \<Rightarrow> bool"
  gp_pack :: "'g \<Rightarrow> native_result_column list \<Rightarrow> nat \<Rightarrow> nat \<Rightarrow> bytes res"
  gp_context :: bool
  gp_reserves :: "'g \<Rightarrow> bool"
  gp_to_host :: "'g \<Rightarrow> 'g batch_data"

record 'g native_result_batch_encoder =
  en_host :: "host_table option"
  en_gpu :: "'g option"
  en_schema :: native_result_schema
  en_rows :: nat

definition check_host_columns ::
  "tae_abi \<Rightarrow> nat \<Rightarrow> column_metadata list \<Rightarrow> native_result_column list \<Rightarrow> unit res" where
  "check_host_columns abi rows columns schema =
     foldR (\<lambda>i _.
       if cm_num_rows (columns ! i) < 0 \<or> nat (cm_num_rows (columns ! i)) \<noteq> rows
       then Inl (Invalid_argument ''native result columns have inconsistent row counts'')
       else if \<not> source_type_matches abi (columns ! i) (schema ! i)
       then Inl (Invalid_argument ''Sirius result column does not match the MO native schema'')
       else Inr ()) [0..<length columns] ()"

text \<open>The constructor's part for data in host memory.\<close>

definition new_host_encoder ::
  "tae_abi \<Rightarrow> native_result_schema \<Rightarrow> 'g batch_data \<Rightarrow> 'g native_result_batch_encoder res" where
  "new_host_encoder abi schema data =
     (case data of
        Host_data table \<Rightarrow>
          (case table of
             None \<Rightarrow> Inl (Invalid_argument ''native result encoder received invalid Sirius host storage'')
           | Some t \<Rightarrow>
               if ht_allocation t = None \<or> length (ht_columns t) \<noteq> length (sch_columns schema)
               then Inl (Invalid_argument ''native result encoder received invalid Sirius host storage'')
               else
                 let rows = (if ht_columns t = [] then 0 else nat (cm_num_rows (ht_columns t ! 0))) in
                 bindR (check_host_columns abi rows (ht_columns t) (sch_columns schema)) (\<lambda>_.
                   Inr \<lparr>en_host = Some t, en_gpu = None, en_schema = schema, en_rows = rows\<rparr>))
      | _ \<Rightarrow> Inl (Invalid_argument ''native result encoder only accepts Sirius GPU or host data''))"

definition new_batch_encoder ::
  "tae_abi \<Rightarrow> 'g gpu_ops \<Rightarrow> string option \<Rightarrow> native_result_schema \<Rightarrow> 'g batch_data \<Rightarrow>
    'g native_result_batch_encoder res" where
  "new_batch_encoder abi gpu threshold_env schema data =
     (case data of
        No_data \<Rightarrow> Inl (Invalid_argument ''native result encoder received an empty Sirius data batch'')
      | Gpu_data None \<Rightarrow> Inl (Invalid_argument ''native result encoder received an unknown GPU representation'')
      | Gpu_data (Some g) \<Rightarrow>
          if gp_can_pack gpu g (sch_columns schema) (gpu_pack_threshold threshold_env)
          then Inr \<lparr>en_host = None, en_gpu = Some g, en_schema = schema, en_rows = gp_rows gpu g\<rparr>
          else if \<not> gp_context gpu
          then Inl (Runtime_error ''native result encoder requires an initialized Sirius context'')
          else if \<not> gp_reserves gpu g
          then Inl (Runtime_error ''native result encoder failed to reserve host memory'')
          else new_host_encoder abi schema (gp_to_host gpu g)
      | _ \<Rightarrow> new_host_encoder abi schema data)"

definition bad_row_range :: "'g native_result_batch_encoder \<Rightarrow> nat \<Rightarrow> nat \<Rightarrow> bool" where
  "bad_row_range en row_offset row_count \<longleftrightarrow>
     row_count = 0 \<or> row_offset > en_rows en \<or> row_count > en_rows en - row_offset"

text \<open>The lambda \<^verbatim>\<open>add\<close>: a checked addition of \<^verbatim>\<open>size_t\<close> values.\<close>

definition size_add :: "u64 \<Rightarrow> u64 \<Rightarrow> u64 res" where
  "size_add acc v =
     (if v > 0xffffffffffffffff - acc then Inl (Overflow_error ''native result encoded size overflows size_t'')
      else Inr (acc + v))"

text \<open>The bytes of the string area of one column; rows that are null are counted too.\<close>

definition area_size :: "tae_abi \<Rightarrow> column_metadata \<Rightarrow> host_allocation option \<Rightarrow> nat \<Rightarrow> nat \<Rightarrow> u64 res" where
  "area_size abi m allocation row_offset row_count =
     (case cm_children m of
        [offsets] \<Rightarrow>
          if \<not> cm_has_data offsets \<or> (cm_type_id offsets \<noteq> T_INT32 \<and> cm_type_id offsets \<noteq> T_INT64)
          then Inl (Invalid_argument ''Sirius string result has invalid offsets'')
          else if offsets_truncated m offsets
          then Inl (Invalid_argument ''Sirius string result offset buffer is truncated'')
          else
            foldR (\<lambda>row area.
              bindR (string_range m offsets allocation (row_offset + row)) (\<lambda>(lo, hi).
                if unat (hi - lo) > VARLENA_INLINE_MAX abi then
                  if hi - lo > 0xffffffffffffffff - area
                  then Inl (Overflow_error ''native result string area overflows size_t'')
                  else Inr (area + (hi - lo))
                else Inr area)) [0..<row_count] 0
      | _ \<Rightarrow> Inl (Invalid_argument ''Sirius string result has invalid offsets''))"

text \<open>The loop stops at the first null.\<close>

fun any_null :: "column_metadata \<Rightarrow> host_allocation option \<Rightarrow> nat list \<Rightarrow> bool res" where
  "any_null m allocation [] = Inr False"
| "any_null m allocation (r # rs) =
     bindR (read_null_bit m allocation r) (\<lambda>null. if null then Inr True else any_null m allocation rs)"

definition has_null :: "column_metadata \<Rightarrow> host_allocation option \<Rightarrow> nat \<Rightarrow> nat \<Rightarrow> bool res" where
  "has_null m allocation row_offset row_count =
     (if \<not> cm_has_null_mask m then Inr False
      else if mask_too_short m row_offset row_count
      then Inl (Invalid_argument ''Sirius result null mask is shorter than its row range'')
      else any_null m allocation (map (\<lambda>row. row_offset + row) [0..<row_count]))"

definition host_column_size ::
  "tae_abi \<Rightarrow> column_metadata \<Rightarrow> host_allocation option \<Rightarrow> nat \<Rightarrow> nat \<Rightarrow> native_result_column \<Rightarrow> u64 res" where
  "host_column_size abi m allocation row_offset row_count c =
     bindR (if is_text abi (col_oid c) then area_size abi m allocation row_offset row_count else Inr 0) (\<lambda>area.
     bindR (has_null m allocation row_offset row_count) (\<lambda>null.
       let null_bytes = (if null then 24 + (row_count + 63) div 64 * 8 else 0) in
       Inr (4 + 34 + of_nat row_count * of_int (mo_type_size abi (col_oid c)) + area + of_nat null_bytes)))"

definition encoded_size :: "tae_abi \<Rightarrow> 'g native_result_batch_encoder \<Rightarrow> nat \<Rightarrow> nat \<Rightarrow> u64 res" where
  "encoded_size abi en row_offset row_count =
     (if bad_row_range en row_offset row_count
      then Inl (Invalid_argument ''invalid native result encoder row range'')
      else
        case en_gpu en of
          Some _ \<Rightarrow>
            foldR (\<lambda>c total. size_add total (4 + 34 + of_nat row_count * of_int (mo_type_size abi (col_oid c))))
              (sch_columns (en_schema en)) (12 + 16)
        | None \<Rightarrow>
            (case en_host en of
               None \<Rightarrow> Inl (Undefined_behaviour ''encoder without a table'')
             | Some t \<Rightarrow>
                 foldR (\<lambda>i total.
                   bindR (host_column_size abi (ht_columns t ! i) (ht_allocation t) row_offset row_count
                       (sch_columns (en_schema en) ! i)) (size_add total))
                   [0..<length (ht_columns t)] (12 + 16)))"

definition encode ::
  "tae_abi \<Rightarrow> 'ld float_ops \<Rightarrow> 'g gpu_ops \<Rightarrow> 'g native_result_batch_encoder \<Rightarrow> nat \<Rightarrow> nat \<Rightarrow> bytes res" where
  "encode abi fl gpu en row_offset row_count =
     (if bad_row_range en row_offset row_count
      then Inl (Invalid_argument ''invalid native result encoder row range'')
      else
        case en_gpu en of
          Some g \<Rightarrow> gp_pack gpu g (sch_columns (en_schema en)) row_offset row_count
        | None \<Rightarrow>
            (case en_host en of
               None \<Rightarrow> Inl (Undefined_behaviour ''encoder without a table'')
             | Some t \<Rightarrow>
                 bindR (mapR (\<lambda>i. encode_host_column abi fl (ht_columns t ! i) (ht_allocation t) row_offset row_count
                     (sch_columns (en_schema en) ! i)) [0..<length (ht_columns t)])
                   (assemble_native_batch abi row_count (en_schema en))))"

end
