(* ===== verification/Native_Result_Correct.thy ===== *)
theory Native_Result_Correct
  imports Native_Result Native_Batch_Correct
begin

text \<open>
  Correctness of the result encoder: the block copy is a slice of the allocation, the size that
  \<^verbatim>\<open>encoded_size\<close> announces is never less than the batch that \<^verbatim>\<open>encode\<close> builds, and the sidecar's own decoder
  reads every encoded batch back.
\<close>

section \<open>Host memory\<close>

text \<open>What cuCascade provides: blocks of one size that cover the allocation.\<close>

definition allocation_ok :: "host_allocation \<Rightarrow> bool" where
  "allocation_ok a \<longleftrightarrow>
     0 < ha_block_size a \<and> (\<forall>b \<in> set (ha_blocks a). length b = ha_block_size a) \<and>
     ha_size_bytes a \<le> length (ha_blocks a) * ha_block_size a"

definition host_bytes :: "host_allocation \<Rightarrow> bytes" where
  "host_bytes a = concat (ha_blocks a)"

lemma concat_slice:
  assumes "\<forall>b \<in> set bs. length b = n" and "k < length bs" and "i + m \<le> n"
  shows "take m (drop (k * n + i) (concat bs)) = take m (drop i (bs ! k))"
  using assms
proof (induction bs arbitrary: k)
  case (Cons b bs)
  show ?case
  proof (cases k)
    case 0
    then show ?thesis using Cons.prems by simp
  next
    case (Suc j)
    then show ?thesis using Cons.prems Cons.IH [of j] by (simp add: drop_append add.assoc)
  qed
qed simp

lemma length_concat_same: "\<forall>b \<in> set bs. length b = n \<Longrightarrow> length (concat bs) = length bs * n"
  by (induction bs) auto

lemma copy_loop_slice:
  assumes "allocation_ok a" and "off + n \<le> length (ha_blocks a) * ha_block_size a"
  shows "copy_loop a off n = Inr (take n (drop off (host_bytes a)))"
  using assms
proof (induction a off n rule: copy_loop.induct)
  case (1 a off n)
  let ?s = "ha_block_size a"
  let ?k = "off div ?s" and ?i = "off mod ?s"
  let ?c = "min n (?s - ?i)"
  have s: "0 < ?s" using 1(2) by (simp add: allocation_ok_def)
  show ?case
  proof (cases "n = 0")
    case True
    then show ?thesis by (subst copy_loop.simps) simp
  next
    case False
    have "off < length (ha_blocks a) * ?s" using False 1(3) by simp
    then have k: "?k < length (ha_blocks a)" using s by (simp add: less_mult_imp_div_less)
    have i: "?i < ?s" using s by simp
    have len: "length (ha_blocks a ! ?k) = ?s" using 1(2) k by (simp add: allocation_ok_def)
    have read: "mem_read (ha_blocks a ! ?k) ?i ?c = Inr (take ?c (drop off (host_bytes a)))"
      using len i concat_slice [of "ha_blocks a" ?s ?k ?i ?c] 1(2) k
      by (simp add: mem_read_def host_bytes_def allocation_ok_def)
    have rest: "copy_loop a (off + ?c) (n - ?c) = Inr (take (n - ?c) (drop (off + ?c) (host_bytes a)))"
      using 1(1) [OF False _ refl refl refl] s k read 1(2,3) by simp
    have "take ?c (drop off (host_bytes a)) @ take (n - ?c) (drop (off + ?c) (host_bytes a)) =
        take n (drop off (host_bytes a))"
      by (metis add.commute drop_drop le_add_diff_inverse min.cobounded1 take_add)
    then show ?thesis
      by (subst copy_loop.simps) (use False s k read rest in \<open>simp add: Let_def\<close>)
  qed
qed

lemma mem_read_exact: "mem_read buffer off n = Inr x \<Longrightarrow> x = take n (drop off buffer) \<and> length x = n"
  by (auto simp: mem_read_def split: if_split_asm)

lemma copy_loop_length: "copy_loop a off n = Inr bs \<Longrightarrow> length bs = n"
proof (induction a off n arbitrary: bs rule: copy_loop.induct)
  case (1 a off n)
  let ?c = "min n (ha_block_size a - off mod ha_block_size a)"
  show ?case
  proof (cases "n = 0")
    case True
    then show ?thesis using 1(2) by (subst (asm) copy_loop.simps) simp
  next
    case False
    from 1(2) False obtain chunk rest where nz: "ha_block_size a \<noteq> 0"
      and k: "\<not> length (ha_blocks a) \<le> off div ha_block_size a"
      and chunk: "mem_read (ha_blocks a ! (off div ha_block_size a)) (off mod ha_block_size a) ?c = Inr chunk"
      and rest: "copy_loop a (off + ?c) (n - ?c) = Inr rest" and bs: "bs = chunk @ rest"
      by (subst (asm) copy_loop.simps) (auto simp: Let_def split: if_split_asm)
    have "length rest = n - ?c" by (rule 1(1) [OF False nz refl refl refl k chunk rest])
    then show ?thesis using bs mem_read_exact [OF chunk, THEN conjunct2] by simp
  qed
qed

lemma copy_host_bytes_length: "copy_host_bytes allocation off n = Inr bs \<Longrightarrow> length bs = n"
  by (auto simp: copy_host_bytes_def copy_loop_length split: option.splits if_split_asm)

text \<open>The blocks of an allocation do not matter: copying a range is taking a slice.\<close>

lemma copy_host_bytes_slice:
  assumes "allocation_ok a"
  shows "copy_host_bytes (Some a) off n =
    (if unat off + n \<le> ha_size_bytes a then Inr (take n (drop (unat off) (host_bytes a)))
     else Inl (Invalid_argument ''native result host buffer range is invalid''))"
proof (cases "unat off + n \<le> ha_size_bytes a")
  case True
  then have "unat off + n \<le> length (ha_blocks a) * ha_block_size a"
    using assms by (simp add: allocation_ok_def)
  from copy_loop_slice [OF assms this] True show ?thesis by (simp add: copy_host_bytes_def)
qed (auto simp: copy_host_bytes_def)

section \<open>Null bitmaps\<close>

lemma null_fold:
  assumes "k \<le> length ns"
  shows "\<exists>ws. fold (\<lambda>row st. if ns ! row then set_null row st else st) [0..<k] (no_nulls (length ns)) =
      (ws, of_nat (card {i. i < k \<and> ns ! i})) \<and>
    length ws = (length ns + 63) div 64 \<and> null_rows ws = {i. i < k \<and> ns ! i}"
  using assms
proof (induction k)
  case 0
  then show ?case by (auto simp: no_nulls_def null_rows_def)
next
  case (Suc k)
  then obtain ws where ws: "fold (\<lambda>row st. if ns ! row then set_null row st else st) [0..<k] (no_nulls (length ns)) =
      (ws, of_nat (card {i. i < k \<and> ns ! i}))" "length ws = (length ns + 63) div 64" "null_rows ws = {i. i < k \<and> ns ! i}"
    by auto
  show ?case
  proof (cases "ns ! k")
    case False
    then have "{i. i < Suc k \<and> ns ! i} = {i. i < k \<and> ns ! i}" using less_Suc_eq by auto
    then show ?thesis using ws False by simp
  next
    case True
    let ?ws = "ws[k div 64 := ws ! (k div 64) OR push_bit (k mod 64) 1]"
    have k: "k div 64 < length ws" using Suc.prems ws(2) by linarith
    have set: "{i. i < Suc k \<and> ns ! i} = insert k {i. i < k \<and> ns ! i}" using True less_Suc_eq by auto
    have bit: "bit (?ws ! (r div 64)) (r mod 64) \<longleftrightarrow> r = k \<or> bit (ws ! (r div 64)) (r mod 64)" for r
    proof (cases "r div 64 = k div 64")
      case True
      then have "r = k \<longleftrightarrow> r mod 64 = k mod 64" by (metis div_mult_mod_eq)
      then show ?thesis using True k by (auto simp: bit_or_iff bit_exp_iff)
    next
      case False
      then show ?thesis by auto
    qed
    have "k < 64 * length ws" using k by linarith
    then have rows: "null_rows ?ws = insert k (null_rows ws)" unfolding null_rows_def bit by auto
    have "card (insert k {i. i < k \<and> ns ! i}) = Suc (card {i. i < k \<and> ns ! i})" by simp
    then show ?thesis
      using ws True rows unfolding set by (simp add: set_null_def add.commute)
  qed
qed

text \<open>The words of a concatenation.\<close>

lemma words_of_concat: "words_of (concat (map (store_le 8) ws)) = (ws :: u64 list)"
proof (induction ws)
  case (Cons w ws)
  have "load_le 8 (store_le 8 w @ concat (map (store_le 8) ws)) 0 = w"
    using load_le_append1 [of 0 8 "store_le 8 w", where 'a = 64] by simp
  with Cons show ?case by (subst words_of.simps) simp
qed (simp add: words_of.simps)

lemma length_concat_words: "length (concat (map (store_le 8) (ws :: u64 list))) = 8 * length ws"
  by (induction ws) simp_all

lemma encode_nulls_cases:
  assumes "length ns < 2 ^ 64"
  obtains ws where "length ws = (length ns + 63) div 64" and "null_rows ws = {i. i < length ns \<and> ns ! i}"
    and "encode_nulls ns =
      (if True \<in> set ns
       then store_le 8 (of_nat (card (null_rows ws)) :: u64) @ store_le 8 (of_nat (length ns) :: u64) @
         store_le 8 (of_nat (length ws * 8) :: u64) @ concat (map (store_le 8) ws)
       else [])"
proof -
  from null_fold [of "length ns" ns] obtain ws where ws: "length ws = (length ns + 63) div 64"
    "null_rows ws = {i. i < length ns \<and> ns ! i}"
    "encode_nulls ns = null_table (length ns) (ws, of_nat (card (null_rows ws)))"
    by (auto simp: encode_nulls_def)
  have "card (null_rows ws) \<le> length ns"
    using card_mono [of "{..<length ns}" "null_rows ws"] ws(2) by auto
  then have "unat (of_nat (card (null_rows ws)) :: u64) = card (null_rows ws)" using assms by (intro unat_of_nat_u64) simp
  then have "(of_nat (card (null_rows ws)) :: u64) = 0 \<longleftrightarrow> card (null_rows ws) = 0" by (metis unat_eq_zero)
  also have "\<dots> \<longleftrightarrow> null_rows ws = {}" by simp
  also have "\<dots> \<longleftrightarrow> True \<notin> set ns" using ws(2) by (auto simp: in_set_conv_nth)
  finally show thesis using that [OF ws(1,2)] ws(3) by (auto simp: null_table_def)
qed

lemma encode_nulls_length:
  assumes "length ns < 2 ^ 64"
  shows "length (encode_nulls ns) = (if True \<in> set ns then 24 + (length ns + 63) div 64 * 8 else 0)"
  by (rule encode_nulls_cases [OF assms]) (simp add: length_concat_words)

lemma sint_of_nat_u64: "n < 2 ^ 63 \<Longrightarrow> sint (of_nat n :: u64) = int n"
  by (simp add: signed_of_nat signed_take_bit_int_eq_self)

lemma sint_of_nat_u32: "n < 2 ^ 31 \<Longrightarrow> sint (of_nat n :: u32) = int n"
  by (simp add: signed_of_nat signed_take_bit_int_eq_self)

text \<open>The decoder reads the bitmap back: the number of nulls and the words with exactly those rows.\<close>

lemma parse_encode_nulls:
  assumes n: "length ns < 2 ^ 32"
  shows "\<exists>words. parse_nulls (encode_nulls ns) (of_nat (length ns)) = Inr (of_nat (card {i. i < length ns \<and> ns ! i}), words) \<and>
    null_rows (words_of words) = {i. i < length ns \<and> ns ! i}"
proof -
  have "length ns < 2 ^ 64" using n by simp
  from encode_nulls_cases [OF this] obtain ws where ws: "length ws = (length ns + 63) div 64"
    "null_rows ws = {i. i < length ns \<and> ns ! i}"
    "encode_nulls ns =
      (if True \<in> set ns
       then store_le 8 (of_nat (card (null_rows ws)) :: u64) @ store_le 8 (of_nat (length ns) :: u64) @
         store_le 8 (of_nat (length ws * 8) :: u64) @ concat (map (store_le 8) ws)
       else [])" by blast
  show ?thesis
  proof (cases "True \<in> set ns")
    case False
    then have none: "null_rows ws = {}" using ws(2) by (auto simp: in_set_conv_nth)
    show ?thesis using False ws(3) unfolding ws(2) [symmetric] none by (simp add: parse_nulls_def words_of.simps)
  next
    case True
    let ?c = "card (null_rows ws)" and ?n = "length ns" and ?body = "concat (map (store_le 8) ws)"
    have c: "?c \<le> ?n" using card_mono [of "{..<?n}" "null_rows ws"] ws(2) by auto
    have "length ws * 8 < 2 ^ 64" using n ws(1) by simp
    then have unat: "unat (of_nat ?c :: u64) = ?c" "unat (of_nat ?n :: u64) = ?n"
      "unat (of_nat (length ws * 8) :: u64) = length ws * 8"
      using n c by (auto intro!: unat_of_nat_u64 simp del: of_nat_mult)
    have uint: "uint (of_nat ?c :: u64) = int ?c" "uint (of_nat ?n :: u64) = int ?n"
      using unat(1,2) by (metis of_nat_unat)+
    have sint: "sint (of_nat ?c :: u64) = int ?c" using n c by (intro sint_of_nat_u64) simp
    have head: "load_le 8 (encode_nulls ns) 0 = (of_nat ?c :: u64)" "load_le 8 (encode_nulls ns) 8 = (of_nat ?n :: u64)"
      "load_le 8 (encode_nulls ns) 16 = (of_nat (length ws * 8) :: u64)"
      using True ws(3)
        load_le_append1 [of 0 8 "store_le 8 (of_nat ?c :: u64)" _, where 'a = 64]
        load_le_append2 [of 8 "store_le 8 (of_nat ?c :: u64)" _ 0, where 'a = 64]
        load_le_append2 [of 8 "store_le 8 (of_nat ?c :: u64) @ store_le 8 (of_nat ?n :: u64)" _ 0, where 'a = 64]
        load_le_append1 [of 0 8 "store_le 8 (of_nat ?n :: u64)" _, where 'a = 64]
        load_le_append1 [of 0 8 "store_le 8 (of_nat (length ws * 8) :: u64)" _, where 'a = 64]
      by simp_all
    have words: "drop mo_bitmap_header_bytes (encode_nulls ns) = ?body" "length (encode_nulls ns) = 24 + 8 * length ws"
      using True ws(3) by (simp_all add: mo_bitmap_header_bytes_def length_concat_words)
    have loop: "null_word_loop ?n 0 0 (words_of ?body) = Inr (of_nat ?c)"
      using null_word_loop_Inr [of ws 0 ?n 0] ws(2) by (simp add: words_of_concat)
    have div: "(of_nat (length ws * 8) :: u64) div 8 = (of_nat ?n + 63) div 64"
    proof -
      have "unat (of_nat ?n + 63 :: u64) = ?n + 63" using n unat(2) by (simp add: unat_plus_if')
      then have "unat ((of_nat ?n + 63 :: u64) div 64) = length ws" using ws(1) by (simp add: unat_div)
      moreover have "unat ((of_nat (length ws * 8) :: u64) div 8) = length ws"
        unfolding unat_div unat(3) by simp
      ultimately show ?thesis by (simp only: word_unat_eq_iff)
    qed
    have mod: "(of_nat (length ws * 8) :: u64) mod 8 = 0"
    proof -
      have "unat ((of_nat (length ws * 8) :: u64) mod 8) = 0" unfolding unat_mod unat(3) by simp
      then show ?thesis by (simp only: unat_eq_zero)
    qed
    have small: "\<not> (of_nat ?n :: u64) > 0xffffffff" using n unat(2) by (simp add: word_less_nat_alt)
    have "encode_nulls ns \<noteq> []" using words(2) by auto
    then have "parse_nulls (encode_nulls ns) (of_nat ?n) = Inr (of_nat ?c, ?body)"
      using head words loop unat uint sint div mod small c
      by (simp add: parse_nulls_def Let_def mo_bitmap_header_bytes_def)
    then show ?thesis using ws(2) by (auto simp: words_of_concat)
  qed
qed

section \<open>Strings\<close>

text \<open>The string that a descriptor stands for.\<close>

definition text_of :: "tae_abi \<Rightarrow> bytes \<Rightarrow> bytes \<Rightarrow> bytes" where
  "text_of abi area v =
     (if vl_is_inline abi v then take (unat (vl_inline_length abi v)) (drop (vl_inline_data abi) v)
      else take (unat (vl_big_length abi v)) (drop (unat (vl_big_offset abi v)) area))"

lemma descriptor_area_grows:
  assumes "descriptor_ok abi area v"
  shows "descriptor_ok abi (area @ ext) v" and "text_of abi (area @ ext) v = text_of abi area v"
  using assms by (auto simp: descriptor_ok_def text_of_def)

lemma descriptor_append:
  assumes "length data = k * VARLENA_SIZE abi" and "length v = VARLENA_SIZE abi"
  shows "i < k \<Longrightarrow> descriptor abi (data @ v) i = descriptor abi data i" and "descriptor abi (data @ v) k = v"
proof -
  assume "i < k"
  then have "Suc i * VARLENA_SIZE abi \<le> k * VARLENA_SIZE abi" by (intro mult_le_mono1) simp
  then show "descriptor abi (data @ v) i = descriptor abi data i" using assms(1) by (simp add: descriptor_def)
qed (use assms in \<open>simp add: descriptor_def\<close>)

text \<open>The first \<open>k\<close> rows of a text column stand for the strings \<open>strs\<close>.\<close>

definition texts_ok :: "tae_abi \<Rightarrow> (nat \<Rightarrow> bytes) \<Rightarrow> nat \<Rightarrow> encoded_column \<Rightarrow> bool" where
  "texts_ok abi strs k enc \<longleftrightarrow>
     length (ec_data enc) = k * VARLENA_SIZE abi \<and>
     (\<forall>i < k. descriptor_ok abi (ec_area enc) (descriptor abi (ec_data enc) i) \<and>
        text_of abi (ec_area enc) (descriptor abi (ec_data enc) i) = strs i)"

lemma texts_ok_Suc:
  assumes "texts_ok abi strs k enc" and "ec_data enc' = ec_data enc @ v" and "length v = VARLENA_SIZE abi"
    and "ec_area enc' = ec_area enc @ ext" and "descriptor_ok abi (ec_area enc') v" and "text_of abi (ec_area enc') v = strs k"
  shows "texts_ok abi strs (Suc k) enc'"
  using assms descriptor_append [of "ec_data enc" k abi v] descriptor_area_grows
  by (auto simp: texts_ok_def less_Suc_eq)

context tae_layout
begin

lemma inline_varlena_text:
  assumes "length s \<le> 23"
  shows "length (inline_varlena s) = 24" and "descriptor_ok abi area (inline_varlena s)"
    and "text_of abi area (inline_varlena s) = s"
proof -
  have "unat (of_nat (length s) :: byte) = length s" using assms by (simp add: unat_of_nat)
  moreover from this have "unat (ucast (of_nat (length s) :: byte) :: u32) = length s"
    using assms by (simp add: unsigned_ucast_eq take_bit_nat_eq_self)
  ultimately show "length (inline_varlena s) = 24" and "descriptor_ok abi area (inline_varlena s)"
    and "text_of abi area (inline_varlena s) = s"
    using assms by (simp_all add: inline_varlena_def descriptor_ok_def text_of_def layout_facts)
qed

lemma big_varlena_text:
  assumes "length area + length s \<le> 0xffffffff"
  shows "length (big_varlena abi (length area) (length s)) = 24"
    and "descriptor_ok abi (area @ s) (big_varlena abi (length area) (length s))"
    and "text_of abi (area @ s) (big_varlena abi (length area) (length s)) = s"
proof -
  let ?v = "big_varlena abi (length area) (length s)"
  have unat: "unat (of_nat (length area) :: u32) = length area" "unat (of_nat (length s) :: u32) = length s"
    using assms by (auto intro!: unat_of_nat_u32)
  have "?v ! 0 = 0xff"
    by (simp add: big_varlena_def varlena_marker nth_append store_le_def)
  then have inline: "\<not> vl_is_inline abi ?v" by (simp add: is_inline)
  have loads: "load_le 4 ?v 0 = VARLENA_BIG_MARKER abi" "vl_big_offset abi ?v = of_nat (length area)"
    "vl_big_length abi ?v = of_nat (length s)"
    unfolding big_offset big_length big_varlena_def
    using load_le_append1 [of 0 4 "store_le 4 (VARLENA_BIG_MARKER abi)" _, where 'a = 32]
      load_le_append2 [of 4 "store_le 4 (VARLENA_BIG_MARKER abi)" _ 0, where 'a = 32]
      load_le_append1 [of 0 4 "store_le 4 (of_nat (length area) :: u32)" _, where 'a = 32]
      load_le_append2 [of 4 "store_le 4 (VARLENA_BIG_MARKER abi) @ store_le 4 (of_nat (length area) :: u32)" _ 0, where 'a = 32]
      load_le_append1 [of 0 4 "store_le 4 (of_nat (length s) :: u32)" _, where 'a = 32]
    by simp_all
  show "length ?v = 24" by (simp add: big_varlena_def)
  show "descriptor_ok abi (area @ s) ?v" and "text_of abi (area @ s) ?v = s"
    using inline loads unat by (simp_all add: descriptor_ok_def text_of_def)
qed

lemma append_varlena_ok:
  assumes "append_varlena abi s enc = Inr enc'"
  obtains v ext where "ec_data enc' = ec_data enc @ v" and "length v = 24" and "ec_area enc' = ec_area enc @ ext"
    and "length ext = (if length s \<le> 23 then 0 else length s)"
    and "descriptor_ok abi (ec_area enc') v" and "text_of abi (ec_area enc') v = s" and "ec_nulls enc' = ec_nulls enc"
proof (cases "length s \<le> 23")
  case True
  then show thesis
    using assms that [of "inline_varlena s" "[]"] inline_varlena_text [OF True]
    by (auto simp: append_varlena_def varlena_inline_max)
next
  case False
  then have "length (ec_area enc) + length s \<le> 0xffffffff"
    using assms by (auto simp: append_varlena_def area_full_def varlena_inline_max split: if_split_asm)
  from big_varlena_text [OF this] False show thesis
    using assms that [of "big_varlena abi (length (ec_area enc)) (length s)" s]
    by (auto simp: append_varlena_def varlena_inline_max split: if_split_asm)
qed

lemma null_descriptor: "descriptor_ok abi area (replicate 24 0)" "text_of abi area (replicate 24 0) = []"
  by (simp_all add: descriptor_ok_def text_of_def layout_facts)

end

section \<open>Columns of host tables\<close>

text \<open>The string of a row in host memory, and the bytes it needs in the area.\<close>

definition host_string :: "column_metadata \<Rightarrow> column_metadata \<Rightarrow> host_allocation option \<Rightarrow> nat \<Rightarrow> bytes" where
  "host_string m offsets allocation row =
     (case string_range m offsets allocation row of
        Inl _ \<Rightarrow> []
      | Inr (lo, hi) \<Rightarrow>
          (case copy_host_bytes allocation (cm_data_offset m + lo) (unat (hi - lo)) of Inl _ \<Rightarrow> [] | Inr s \<Rightarrow> s))"

definition row_area :: "column_metadata \<Rightarrow> column_metadata \<Rightarrow> host_allocation option \<Rightarrow> nat \<Rightarrow> nat" where
  "row_area m offsets allocation row =
     (case string_range m offsets allocation row of
        Inl _ \<Rightarrow> 0
      | Inr (lo, hi) \<Rightarrow> if unat (hi - lo) > 23 then unat (hi - lo) else 0)"

lemma read_nulls_length: "read_nulls m allocation off n required = Inr ns \<Longrightarrow> length ns = n"
  by (auto simp: read_nulls_def dest: mapR_length split: if_split_asm)

lemma any_null_read:
  assumes "any_null m allocation rs = Inr b"
    and "mapR (\<lambda>r. bindR (read_null_bit m allocation r) (\<lambda>null. if required \<and> null then Inl x else Inr null)) rs = Inr ns"
  shows "b \<longleftrightarrow> True \<in> set ns"
  using assms
proof (induction rs arbitrary: ns)
  case (Cons r rs)
  then show ?case by (auto split: if_split_asm)
qed simp

lemma mapR_map: "mapR f (map g xs) = mapR (\<lambda>x. f (g x)) xs"
  by (induction xs) simp_all

lemma has_null_read:
  assumes "has_null m allocation off n = Inr b" and "read_nulls m allocation off n required = Inr ns"
  shows "b \<longleftrightarrow> True \<in> set ns"
  using assms any_null_read [of m allocation "map (\<lambda>row. off + row) [0..<n]" b required]
  by (auto simp: has_null_def read_nulls_def mapR_map split: if_split_asm)

text \<open>Offsets grow from row to row, so the area never exceeds the character buffer.\<close>

lemma area_size_exact:
  assumes size: "area_size abi m allocation off n = Inr area" and inline: "VARLENA_INLINE_MAX abi = 23"
  obtains offsets where "cm_children m = [offsets]"
    and "unat area = (\<Sum>i < n. row_area m offsets allocation (off + i))" and "unat area \<le> unat (cm_data_size m)"
proof -
  from size obtain offsets where children: "cm_children m = [offsets]"
    by (auto simp: area_size_def split: list.splits)
  let ?L = "\<lambda>k. \<Sum>i < k. row_area m offsets allocation (off + i)"
  let ?P = "\<lambda>k a. unat a = ?L k \<and> ?L k \<le> unat (cm_data_size m) \<and>
    (\<forall>lo. k > 0 \<longrightarrow> offset_at offsets allocation (off + k) = Inr lo \<longrightarrow> ?L k \<le> unat lo)"
  from size children have fold: "foldR (\<lambda>row area.
      bindR (string_range m offsets allocation (off + row)) (\<lambda>(lo, hi).
        if unat (hi - lo) > VARLENA_INLINE_MAX abi then
          if hi - lo > 0xffffffffffffffff - area
          then Inl (Overflow_error ''native result string area overflows size_t'')
          else Inr (area + (hi - lo))
        else Inr area)) [0..<n] 0 = Inr area"
    by (auto simp: area_size_def split: if_split_asm)
  have "?P n area"
  proof (rule foldR_invariant [OF fold])
    fix k a b assume P: "?P k a"
      and step: "bindR (string_range m offsets allocation (off + k)) (\<lambda>(lo, hi).
        if unat (hi - lo) > VARLENA_INLINE_MAX abi then
          if hi - lo > 0xffffffffffffffff - a
          then Inl (Overflow_error ''native result string area overflows size_t'')
          else Inr (a + (hi - lo))
        else Inr a) = Inr b"
    from step obtain lo hi where range: "string_range m offsets allocation (off + k) = Inr (lo, hi)" by auto
    then have offs: "offset_at offsets allocation (off + k) = Inr lo" "offset_at offsets allocation (off + Suc k) = Inr hi"
      and le: "lo \<le> hi" "hi \<le> cm_data_size m"
      by (auto simp: string_range_def not_less split: if_split_asm)
    have diff: "unat (hi - lo) = unat hi - unat lo" "unat lo \<le> unat hi" "unat hi \<le> unat (cm_data_size m)"
      using le by (simp_all add: unat_sub word_le_nat_alt)
    have Lk: "?L k \<le> unat lo" using P offs(1) by (cases "k = 0") auto
    have L: "?L (Suc k) = ?L k + (if unat (hi - lo) > 23 then unat (hi - lo) else 0)"
      using range by (simp add: row_area_def)
    have b: "unat b = ?L (Suc k)"
    proof (cases "unat (hi - lo) > 23")
      case True
      then have "b = a + (hi - lo)" using step range inline by (auto split: if_split_asm)
      moreover have "unat a + unat (hi - lo) < 2 ^ 64" using P Lk diff unat_u64_less [of hi] by linarith
      ultimately show ?thesis using True L P by (simp add: unat_plus_if')
    next
      case False
      then show ?thesis using step range inline L P by (auto split: if_split_asm)
    qed
    have "?L (Suc k) \<le> unat hi" using L Lk diff by auto
    then show "?P (Suc k) b" using b offs(2) diff by auto
  qed simp
  then show thesis using that [OF children] by simp
qed

context tae_layout
begin

lemma host_text_row_ok:
  assumes "host_text_row abi m offsets allocation ns off row enc = Inr enc'"
  obtains v ext where "ec_data enc' = ec_data enc @ v" and "length v = 24" and "ec_area enc' = ec_area enc @ ext"
    and "length ext \<le> row_area m offsets allocation (off + row)"
    and "descriptor_ok abi (ec_area enc') v" and "ec_nulls enc' = ec_nulls enc"
    and "text_of abi (ec_area enc') v = (if ns ! row then [] else host_string m offsets allocation (off + row))"
proof (cases "ns ! row")
  case True
  then show thesis
    using assms that [of "replicate 24 0" "[]"] null_descriptor by (auto simp: host_text_row_def append_data_def)
next
  case False
  from assms False obtain lo hi str where range: "string_range m offsets allocation (off + row) = Inr (lo, hi)"
    and copy: "copy_host_bytes allocation (cm_data_offset m + lo) (unat (hi - lo)) = Inr str"
    and app: "append_varlena abi str enc = Inr enc'"
    by (auto simp: host_text_row_def Let_def split: if_split_asm)
  have str: "host_string m offsets allocation (off + row) = str" "row_area m offsets allocation (off + row) =
      (if length str > 23 then length str else 0)"
    using range copy copy_host_bytes_length [OF copy] by (simp_all add: host_string_def row_area_def)
  show thesis
    by (rule append_varlena_ok [OF app]) (rule that, use str False in auto)
qed

lemma host_text_column_ok:
  assumes "foldR (host_text_row abi m offsets allocation ns off) [0..<n] out = Inr enc"
    and "ec_data out = []" and "ec_area out = []"
  shows "texts_ok abi (\<lambda>i. if ns ! i then [] else host_string m offsets allocation (off + i)) n enc \<and>
    ec_nulls enc = ec_nulls out \<and> length (ec_area enc) \<le> (\<Sum>i < n. row_area m offsets allocation (off + i))"
proof (rule foldR_invariant [OF assms(1)])
  fix i u v
  assume inv: "texts_ok abi (\<lambda>i. if ns ! i then [] else host_string m offsets allocation (off + i)) i u \<and>
    ec_nulls u = ec_nulls out \<and> length (ec_area u) \<le> (\<Sum>i < i. row_area m offsets allocation (off + i))"
    and step: "host_text_row abi m offsets allocation ns off i u = Inr v"
  from host_text_row_ok [OF step] obtain d ext where d: "ec_data v = ec_data u @ d" "length d = 24"
    "ec_area v = ec_area u @ ext" "length ext \<le> row_area m offsets allocation (off + i)"
    "descriptor_ok abi (ec_area v) d" "ec_nulls v = ec_nulls u"
    "text_of abi (ec_area v) d = (if ns ! i then [] else host_string m offsets allocation (off + i))" by blast
  then show "texts_ok abi (\<lambda>i. if ns ! i then [] else host_string m offsets allocation (off + i)) (Suc i) v \<and>
    ec_nulls v = ec_nulls out \<and> length (ec_area v) \<le> (\<Sum>i < Suc i. row_area m offsets allocation (off + i))"
    using inv texts_ok_Suc [of abi _ i u v d ext] by (auto simp: varlena_size)
qed (use assms in \<open>simp add: texts_ok_def\<close>)

end

text \<open>What assembling a column relies on: one null flag per row, the data length of its type, and
  descriptors that stay inside the area.\<close>

definition encoded_ok :: "tae_abi \<Rightarrow> nat \<Rightarrow> native_result_column \<Rightarrow> bool list \<Rightarrow> encoded_column \<Rightarrow> bool" where
  "encoded_ok abi n c ns enc \<longleftrightarrow>
     length ns = n \<and> ec_nulls enc = encode_nulls ns \<and>
     length (ec_data enc) = n * nat (mo_type_size abi (col_oid c)) \<and>
     (if is_text abi (col_oid c)
      then \<forall>i < n. descriptor_ok abi (ec_area enc) (descriptor abi (ec_data enc) i)
      else ec_area enc = [])"

lemma read_host_scalar_ok: "read_host_scalar n allocation off = Inr w \<Longrightarrow> \<exists>b. copy_host_bytes allocation off n = Inr b"
  by (auto simp: read_host_scalar_def)

context tae_layout
begin

lemma text_size: "is_text abi oid \<Longrightarrow> mo_type_size abi oid = 24"
  by (auto simp: is_text_def mo_type_size_def Let_def layout_facts)

lemma double_to_decimal_length:
  "double_to_decimal abi fl c x = Inr b \<Longrightarrow> length b = (if unat (col_oid c) = MO_T_decimal64 abi then 8 else 16)"
  by (auto simp: double_to_decimal_def Let_def split: if_split_asm)

lemma host_value_length:
  assumes "host_value abi fl m allocation c source = Inr b"
  shows "length b = nat (mo_type_size abi (col_oid c))"
proof -
  let ?oid = "unat (col_oid c)"
  consider "?oid = MO_T_uint32 abi" | "?oid = MO_T_date abi" | "?oid = MO_T_decimal64 abi" | "?oid = MO_T_decimal128 abi"
    | "?oid \<noteq> MO_T_uint32 abi" "?oid \<noteq> MO_T_date abi" "?oid \<noteq> MO_T_decimal64 abi" "?oid \<noteq> MO_T_decimal128 abi"
    by blast
  then show ?thesis
  proof cases
    case 1
    then show ?thesis using assms
      by (auto simp: host_value_def mo_type_size_def Let_def layout_facts split: if_split_asm)
  next
    case 2
    then show ?thesis using assms
      by (auto simp: host_value_def mo_type_size_def Let_def layout_facts split: if_split_asm)
  next
    case 3
    then show ?thesis using assms
      by (auto simp: host_value_def mo_type_size_def Let_def layout_facts
          dest: double_to_decimal_length copy_host_bytes_length split: if_split_asm)
  next
    case 4
    then show ?thesis using assms
      by (auto simp: host_value_def mo_type_size_def Let_def layout_facts
          dest: double_to_decimal_length copy_host_bytes_length split: if_split_asm)
  next
    case 5
    then show ?thesis using assms by (auto simp: host_value_def Let_def dest: copy_host_bytes_length)
  qed
qed

lemma fixed_rows_ok:
  assumes "foldR f [0..<n] out = Inr enc" and "ec_data out = []" and "ec_area out = []"
    and "\<And>i u v. f i u = Inr v \<Longrightarrow> \<exists>b. v = append_data b u \<and> length b = w"
  shows "length (ec_data enc) = n * w \<and> ec_area enc = [] \<and> ec_nulls enc = ec_nulls out"
proof (rule foldR_invariant [OF assms(1)])
  fix i u v
  assume "length (ec_data u) = i * w \<and> ec_area u = [] \<and> ec_nulls u = ec_nulls out" and "f i u = Inr v"
  then show "length (ec_data v) = Suc i * w \<and> ec_area v = [] \<and> ec_nulls v = ec_nulls out"
    using assms(4) [of i u v] by (auto simp: append_data_def)
qed (use assms(2,3) in simp)

lemma encode_host_column_ok:
  assumes enc: "encode_host_column abi fl m allocation off n c = Inr enc"
  obtains ns where "read_nulls m allocation off n (col_not_nullable c) = Inr ns" and "encoded_ok abi n c ns enc"
    and "\<And>offsets. is_text abi (col_oid c) \<Longrightarrow> cm_children m = [offsets] \<Longrightarrow>
      texts_ok abi (\<lambda>i. if ns ! i then [] else host_string m offsets allocation (off + i)) n enc \<and>
      length (ec_area enc) \<le> (\<Sum>i < n. row_area m offsets allocation (off + i))"
proof -
  from enc obtain ns where ns: "read_nulls m allocation off n (col_not_nullable c) = Inr ns"
    by (auto simp: encode_host_column_def split: if_split_asm)
  let ?out = "empty_encoded\<lparr>ec_nulls := encode_nulls ns\<rparr>"
  have len: "length ns = n" by (rule read_nulls_length [OF ns])
  show thesis
  proof (cases "is_text abi (col_oid c)")
    case True
    with enc ns obtain offsets where offsets: "cm_children m = [offsets]"
      and fold: "foldR (host_text_row abi m offsets allocation ns off) [0..<n] ?out = Inr enc"
      by (auto simp: encode_host_column_def Let_def split: if_split_asm list.splits)
    from host_text_column_ok [OF fold] have ok:
      "texts_ok abi (\<lambda>i. if ns ! i then [] else host_string m offsets allocation (off + i)) n enc"
      "ec_nulls enc = encode_nulls ns" "length (ec_area enc) \<le> (\<Sum>i < n. row_area m offsets allocation (off + i))"
      by (simp_all add: empty_encoded_def)
    then have "encoded_ok abi n c ns enc"
      using len True by (simp add: encoded_ok_def texts_ok_def text_size varlena_size)
    then show thesis by (rule that [OF ns]) (use ok offsets in auto)
  next
    case False
    with enc ns have fold: "foldR (host_fixed_row abi fl m allocation c ns off) [0..<n] ?out = Inr enc"
      by (auto simp: encode_host_column_def Let_def split: if_split_asm)
    have "length (ec_data enc) = n * nat (mo_type_size abi (col_oid c)) \<and> ec_area enc = [] \<and> ec_nulls enc = ec_nulls ?out"
      by (rule fixed_rows_ok [OF fold])
        (auto simp: empty_encoded_def host_fixed_row_def split: if_split_asm dest: host_value_length)
    then show thesis using that [OF ns] False len by (simp add: encoded_ok_def)
  qed
qed

end

section \<open>Batches\<close>

definition framed :: "bytes \<Rightarrow> bytes" where
  "framed v = store_le 4 (of_nat (length v) :: u32) @ v"

lemma length_framed [simp]: "length (framed v) = 4 + length v"
  by (simp add: framed_def)

lemma append_u32_InrD: "append_u32 out n what = Inr out' \<Longrightarrow> n \<le> 0xffffffff \<and> out' = out @ store_le 4 (of_nat n :: u32)"
  by (auto simp: append_u32_def split: if_split_asm)

lemma length_encode_mo_type [simp]: "length (encode_mo_type t) = 16"
  by (simp add: encode_mo_type_def)

lemma assemble_vector_InrD:
  assumes "assemble_vector abi n c enc = Inr v"
  shows "n \<le> 0xffffffff" and "length (ec_data enc) \<le> 0xffffffff" and "length (ec_area enc) \<le> 0xffffffff"
    and "length (ec_nulls enc) \<le> 0xffffffff"
    and "v = 0 # encode_mo_type (result_mo_type abi c) @ store_le 4 (of_nat n :: u32) @ framed (ec_data enc) @
      framed (ec_area enc) @ framed (ec_nulls enc) @ [0]"
  using assms by (auto simp: assemble_vector_def framed_def dest!: append_u32_InrD)

lemma assemble_vector_length:
  "assemble_vector abi n c enc = Inr v \<Longrightarrow>
    length v = 34 + length (ec_data enc) + length (ec_area enc) + length (ec_nulls enc)"
  by (drule assemble_vector_InrD(5)) simp

lemma vectors_foldR:
  assumes "foldR (\<lambda>i out. bindR (vec i) (\<lambda>v. bindR (append_u32 out (length v) what) (\<lambda>out'. Inr (out' @ v)))) [0..<k] out0 = Inr out"
  shows "\<exists>vs. length vs = k \<and> (\<forall>i < k. vec i = Inr (vs ! i) \<and> length (vs ! i) \<le> 0xffffffff) \<and> out = out0 @ concat (map framed vs)"
proof (rule foldR_invariant [OF assms])
  fix i u v
  assume "\<exists>vs. length vs = i \<and> (\<forall>j < i. vec j = Inr (vs ! j) \<and> length (vs ! j) \<le> 0xffffffff) \<and> u = out0 @ concat (map framed vs)"
    and step: "bindR (vec i) (\<lambda>v. bindR (append_u32 u (length v) what) (\<lambda>out'. Inr (out' @ v))) = Inr v"
  then obtain vs where vs: "length vs = i" "\<forall>j < i. vec j = Inr (vs ! j) \<and> length (vs ! j) \<le> 0xffffffff"
    "u = out0 @ concat (map framed vs)" by blast
  from step obtain w where "vec i = Inr w" "length w \<le> 0xffffffff" "v = u @ framed w"
    by (auto simp: framed_def dest!: append_u32_InrD)
  then show "\<exists>vs. length vs = Suc i \<and> (\<forall>j < Suc i. vec j = Inr (vs ! j) \<and> length (vs ! j) \<le> 0xffffffff) \<and>
      v = out0 @ concat (map framed vs)"
    using vs by (intro exI [of _ "vs @ [w]"]) (auto simp: nth_append less_Suc_eq)
qed simp

lemma assemble_native_batch_InrD:
  assumes "assemble_native_batch abi n schema columns = Inr payload"
  obtains vs where "length vs = length columns"
    and "\<And>i. i < length columns \<Longrightarrow> assemble_vector abi n (sch_columns schema ! i) (columns ! i) = Inr (vs ! i)"
    and "\<And>i. i < length columns \<Longrightarrow> length (vs ! i) \<le> 0xffffffff"
    and "payload = store_le 8 (of_nat n :: u64) @ store_le 4 (of_nat (length columns) :: u32) @ concat (map framed vs) @ replicate 16 0"
proof -
  have zero: "store_le 4 (0 :: u32) = replicate 4 0" by (simp add: store_le_def numeral_eq_Suc)
  from assms obtain out where out: "foldR (\<lambda>i out.
         bindR (assemble_vector abi n (sch_columns schema ! i) (columns ! i)) (\<lambda>v.
         bindR (append_u32 out (length v) ''native result vector'') (\<lambda>out'. Inr (out' @ v))))
       [0..<length columns] (store_le 8 (of_nat n :: u64) @ store_le 4 (of_nat (length columns) :: u32)) = Inr out"
    and payload: "payload = out @ replicate 16 0"
    by (auto simp: assemble_native_batch_def zero simp flip: replicate_add)
  from vectors_foldR [OF out] payload show thesis using that by auto
qed

section \<open>The announced size\<close>

lemma size_add_InrD: "size_add acc v = Inr r \<Longrightarrow> unat r = unat acc + unat v"
proof -
  assume "size_add acc v = Inr r"
  then have le: "v \<le> 0xffffffffffffffff - acc" and r: "r = acc + v"
    by (auto simp: size_add_def not_less split: if_split_asm)
  have "acc \<le> 0xffffffffffffffff" using unat_u64_less [of acc] by (simp add: word_le_nat_alt)
  then have "unat v \<le> 0xffffffffffffffff - unat acc" using le by (simp add: word_le_nat_alt unat_sub)
  then have "unat acc + unat v < 2 ^ 64" using unat_u64_less [of acc] by simp
  then show ?thesis using r by (simp add: unat_plus_if')
qed

lemma size_foldR:
  assumes "foldR (\<lambda>i acc. bindR (sz i) (size_add acc)) [0..<k] acc0 = Inr r"
  shows "(\<forall>i < k. \<exists>x. sz i = Inr x) \<and> unat r = unat acc0 + (\<Sum>i < k. unat (projr (sz i)))"
proof (rule foldR_invariant [OF assms])
  fix i u v
  assume "(\<forall>j < i. \<exists>x. sz j = Inr x) \<and> unat u = unat acc0 + (\<Sum>j < i. unat (projr (sz j)))"
    and "bindR (sz i) (size_add u) = Inr v"
  then show "(\<forall>j < Suc i. \<exists>x. sz j = Inr x) \<and> unat v = unat acc0 + (\<Sum>j < Suc i. unat (projr (sz j)))"
    by (auto simp: less_Suc_eq dest: size_add_InrD)
qed simp

text \<open>A table as Sirius hands it over: fewer than \<open>2 ^ 31\<close> rows (\<^verbatim>\<open>cudf::size_type\<close>) and character buffers that fit
  into an address space.\<close>

definition host_encoder_ok :: "'g native_result_batch_encoder \<Rightarrow> bool" where
  "host_encoder_ok en \<longleftrightarrow>
     en_gpu en = None \<and> en_rows en < 2 ^ 31 \<and>
     (\<exists>t. en_host en = Some t \<and> (\<forall>m \<in> set (ht_columns t). unat (cm_data_size m) < 2 ^ 62))"

context tae_layout
begin

lemma matched_oid:
  assumes "source_type_matches abi m c"
  shows "unat (col_oid c) \<in> {10, 20, 21, 22, 23, 27, 30, 31, 40, 41, 50, 60, 61}"
  using assms by (rule contrapos_pp) (simp add: source_type_matches_def Let_def layout_facts)

lemma matched_size:
  assumes "source_type_matches abi m c"
  shows "0 \<le> mo_type_size abi (col_oid c) \<and> mo_type_size abi (col_oid c) \<le> 24"
proof -
  have "\<forall>oid \<in> {10, 20, 21, 22, 23, 27, 30, 31, 40, 41, 50, 60, 61}.
      (if MOTypeFixedSize abi oid < 0 then int (VARLENA_SIZE abi) else MOTypeFixedSize abi oid) \<in> {1, 2, 4, 8, 16, 24}"
    using bool_type int_types float_types decimal_types date_type text_varlena varlena_size
    by (simp only: ball_simps insert_iff empty_iff if_True if_False simp_thms) simp
  from bspec [OF this matched_oid [OF assms]] show ?thesis
    unfolding mo_type_size_def Let_def by (elim insertE emptyE) simp_all
qed

lemma host_column_size_bound:
  assumes enc: "encode_host_column abi fl m allocation off n c = Inr enc"
    and size: "host_column_size abi m allocation off n c = Inr sz"
    and small: "n < 2 ^ 31" "unat (cm_data_size m) < 2 ^ 62"
  shows "38 + length (ec_data enc) + length (ec_area enc) + length (ec_nulls enc) \<le> unat sz"
proof -
  obtain ns where
    ns: "read_nulls m allocation off n (col_not_nullable c) = Inr ns" and ok: "encoded_ok abi n c ns enc"
    and texts: "\<And>offsets. is_text abi (col_oid c) \<Longrightarrow> cm_children m = [offsets] \<Longrightarrow>
      length (ec_area enc) \<le> (\<Sum>i < n. row_area m offsets allocation (off + i))"
    by (rule encode_host_column_ok [OF enc]) (rule that, assumption+, simp)
  from enc have "source_type_matches abi m c" by (auto simp: encode_host_column_def split: if_split_asm)
  note type_size = matched_size [OF this]
  let ?w = "nat (mo_type_size abi (col_oid c))"
  from size obtain area null where
    area: "(if is_text abi (col_oid c) then area_size abi m allocation off n else Inr 0) = Inr area"
    and null: "has_null m allocation off n = Inr null"
    and sz: "sz = 4 + 34 + of_nat n * of_int (mo_type_size abi (col_oid c)) + area +
      of_nat (if null then 24 + (n + 63) div 64 * 8 else 0)"
    by (auto simp: host_column_size_def Let_def)
  let ?b = "if null then 24 + (n + 63) div 64 * 8 else 0"
  have "length (ec_area enc) \<le> unat area \<and> unat area \<le> unat (cm_data_size m)"
  proof (cases "is_text abi (col_oid c)")
    case True
    then have "area_size abi m allocation off n = Inr area" using area by simp
    then show ?thesis using varlena_inline_max texts [OF True] by (elim area_size_exact) auto
  next
    case False
    then show ?thesis using area ok by (simp add: encoded_ok_def)
  qed
  moreover have "n < 2 ^ 64" using small(1) by simp
  then have "length (ec_nulls enc) = ?b"
    using ok encode_nulls_length [of ns] has_null_read [OF null ns] by (simp add: encoded_ok_def)
  moreover have "length (ec_data enc) = n * ?w" using ok by (simp add: encoded_ok_def)
  moreover have "unat sz = 38 + n * ?w + unat area + ?b"
  proof -
    have "n * ?w \<le> 2 ^ 31 * 24" using small(1) type_size by (intro mult_le_mono) auto
    then have "38 + n * ?w + unat area + ?b < 2 ^ 64" using calculation(1) small by auto
    moreover have "sz = of_nat (38 + n * ?w + unat area + ?b)"
      using sz type_size by simp
    ultimately show ?thesis by (simp only: unat_of_nat_u64)
  qed
  ultimately show ?thesis by simp
qed

lemma encoded_size_bound:
  assumes ok: "host_encoder_ok en" and size: "encoded_size abi en off n = Inr sz"
    and enc: "encode abi fl gpu en off n = Inr payload"
  shows "length payload \<le> unat sz"
proof -
  from ok obtain t where t: "en_gpu en = None" "en_rows en < 2 ^ 31" "en_host en = Some t"
    "\<And>m. m \<in> set (ht_columns t) \<Longrightarrow> unat (cm_data_size m) < 2 ^ 62" by (auto simp: host_encoder_ok_def)
  let ?k = "length (ht_columns t)" and ?c = "\<lambda>i. sch_columns (en_schema en) ! i"
  from enc t have n: "n < 2 ^ 31" by (auto simp: encode_def bad_row_range_def split: if_split_asm)
  from enc t obtain cols where
    cols: "mapR (\<lambda>i. encode_host_column abi fl (ht_columns t ! i) (ht_allocation t) off n (?c i)) [0..<?k] = Inr cols"
    and asm: "assemble_native_batch abi n (en_schema en) cols = Inr payload"
    by (auto simp: encode_def split: if_split_asm)
  have k: "length cols = ?k" using mapR_length [OF cols] by simp
  have col: "encode_host_column abi fl (ht_columns t ! i) (ht_allocation t) off n (?c i) = Inr (cols ! i)" if "i < ?k" for i
    using mapR_nth [OF cols, of i] that by simp
  from assemble_native_batch_InrD [OF asm] obtain vs where vs: "length vs = ?k"
    "\<And>i. i < ?k \<Longrightarrow> assemble_vector abi n (?c i) (cols ! i) = Inr (vs ! i)"
    "payload = store_le 8 (of_nat n :: u64) @ store_le 4 (of_nat (length cols) :: u32) @ concat (map framed vs) @ replicate 16 0"
    unfolding k by blast
  let ?sz = "\<lambda>i. host_column_size abi (ht_columns t ! i) (ht_allocation t) off n (?c i)"
  from size t have "foldR (\<lambda>i total. bindR (?sz i) (size_add total)) [0..<?k] (12 + 16) = Inr sz"
    by (auto simp: encoded_size_def split: if_split_asm)
  from size_foldR [OF this] have sz: "\<And>i. i < ?k \<Longrightarrow> \<exists>x. ?sz i = Inr x" "unat sz = 28 + (\<Sum>i < ?k. unat (projr (?sz i)))"
    by auto
  have "length (vs ! i) + 4 \<le> unat (projr (?sz i))" if i: "i < ?k" for i
  proof -
    from sz(1) [OF i] obtain x where x: "?sz i = Inr x" by blast
    have "unat (cm_data_size (ht_columns t ! i)) < 2 ^ 62" using i t(4) by simp
    from host_column_size_bound [OF col [OF i] x n this] show ?thesis
      using x assemble_vector_length [OF vs(2) [OF i]] by simp
  qed
  then have "(\<Sum>i < ?k. length (vs ! i) + 4) \<le> (\<Sum>i < ?k. unat (projr (?sz i)))" by (intro sum_mono) simp
  moreover have "length (concat (map framed vs)) = (\<Sum>i < ?k. length (vs ! i) + 4)"
    using vs(1) by (simp add: length_concat sum_list_sum_nth atLeast0LessThan comp_def add.commute)
  ultimately show ?thesis using vs(3) sz(2) by simp
qed

end

section \<open>Reading a batch back\<close>

lemma cursor_read_append: "length xs = n \<Longrightarrow> cursor_read n (xs @ ys) = Inr (xs, ys)"
  by (simp add: cursor_read_def)

lemma cursor_u32_append: "cursor_u32 (store_le 4 (w :: u32) @ ys) = Inr (w, ys)"
  by (simp add: cursor_u32_def cursor_read_append)

lemma cursor_i64_append: "cursor_i64 (store_le 8 (w :: u64) @ ys) = Inr (sint w, ys)"
  by (simp add: cursor_i64_def cursor_u64_def cursor_read_append)

lemma cursor_block_framed: "length d \<le> 0xffffffff \<Longrightarrow> cursor_block (framed d @ ys) = Inr (d, ys)"
  by (simp add: cursor_block_def framed_def cursor_u32_append cursor_read_append unat_of_nat_u32)

lemmas cursor_appends = cursor_read_append cursor_u32_append cursor_i64_append cursor_block_framed

lemma load_le_at:
  fixes w :: "'a::len word"
  assumes "length xs = k" and "LENGTH('a) \<le> n * 8"
  shows "load_le n (xs @ store_le n w @ ys) k = w"
  using assms load_le_append2 [of n xs "store_le n w @ ys" 0, where 'a = 'a] load_le_append1 [of 0 n "store_le n w" ys, where 'a = 'a]
  by simp

lemma decode_encode_mo_type: "decode_mo_type (encode_mo_type t) = t"
proof -
  let ?h = "[mt_oid t, mt_charset t, mt_not_null t, mt_dummy t]"
  have "load_le 4 (encode_mo_type t) 4 = mt_size t"
    unfolding encode_mo_type_def by (rule load_le_at) simp_all
  moreover have "load_le 4 (encode_mo_type t) 8 = mt_width t"
    using load_le_at [of "?h @ store_le 4 (mt_size t)" 8 4 "mt_width t"] by (simp add: encode_mo_type_def)
  moreover have "load_le 4 (encode_mo_type t) 12 = mt_scale t"
    using load_le_at [of "?h @ store_le 4 (mt_size t) @ store_le 4 (mt_width t)" 12 4 "mt_scale t" "[]"]
    by (simp add: encode_mo_type_def)
  ultimately show ?thesis by (simp add: decode_mo_type_def) (simp add: encode_mo_type_def)
qed

text \<open>The view of an encoded column.\<close>

definition view_of :: "tae_abi \<Rightarrow> nat \<Rightarrow> native_result_column \<Rightarrow> bool list \<Rightarrow> encoded_column \<Rightarrow> native_column_view \<Rightarrow> bool" where
  "view_of abi n c ns enc col \<longleftrightarrow>
     cv_vector_class col = mo_vector_flat \<and> cv_type col = result_mo_type abi c \<and> unat (cv_logical_rows col) = n \<and>
     cv_data col = ec_data enc \<and> cv_area col = ec_area enc \<and>
     unat (cv_null_count col) = card {i. i < n \<and> ns ! i} \<and>
     null_rows (words_of (cv_null_words col)) = {i. i < n \<and> ns ! i}"

context tae_layout
begin

lemma parse_assembled_vector:
  assumes asm: "assemble_vector abi n c enc = Inr v" and ok: "encoded_ok abi n c ns enc"
    and match: "substrait_matches_mo abi expected (result_mo_type abi c)" and oid: "unat (col_oid c) < 256"
  shows "\<exists>col. parse_column abi v (of_nat n) expected = Inr col \<and> view_of abi n c ns enc col"
proof -
  note v = assemble_vector_InrD [OF asm]
  have n: "n < 2 ^ 32" using v(1) by simp
  let ?t = "result_mo_type abi c" and ?f = "MOTypeFixedSize abi (unat (mt_oid (result_mo_type abi c)))"
  have t: "unat (mt_oid ?t) = unat (col_oid c)"
    using oid by (simp add: result_mo_type_def unsigned_ucast_eq take_bit_nat_eq_self)
  note sizes = matches_element_size [OF match]
  have es: "(if ?f < 0 then int (VARLENA_SIZE abi) else ?f) = int (element_size abi ?t)"
    using element_size_int [OF match] by (simp add: Let_def)
  then have mts: "nat (mo_type_size abi (col_oid c)) = element_size abi ?t"
    by (simp add: mo_type_size_def Let_def t [symmetric])
  have rows: "unat (of_nat n :: u64) = n" "unat (of_nat n :: u32) = n"
    using n by (simp_all add: unat_of_nat_u64 unat_of_nat_u32)
  then have logical: "uint (of_nat n :: u32) = uint (of_nat n :: u64)" by (metis of_nat_unat)
  have "element_size abi ?t \<le> 24" using sizes(1) by auto
  then have len: "unat (of_nat n * of_int (int (element_size abi ?t)) :: u64) = length (ec_data enc)"
    using product_fits [of "of_nat n" "element_size abi ?t"] n rows ok mts by (simp add: encoded_ok_def)
  have strings: "?f < 0 \<longleftrightarrow> is_text abi (col_oid c)" using sizes(3) t by (simp add: is_text_def)
  from parse_encode_nulls [of ns] n ok obtain words where
    words: "parse_nulls (ec_nulls enc) (of_nat n) = Inr (of_nat (card {i. i < n \<and> ns ! i}), words)"
    "null_rows (words_of words) = {i. i < n \<and> ns ! i}" by (auto simp: encoded_ok_def)
  let ?col = "\<lparr>cv_encoded = v, cv_vector_class = mo_vector_flat, cv_type = ?t, cv_logical_rows = of_nat n,
    cv_data = ec_data enc, cv_area = ec_area enc, cv_sorted = False,
    cv_null_count = of_nat (card {i. i < n \<and> ns ! i}), cv_null_words = words\<rparr>"
  have phys: "physical_rows ?col = n"
    using rows by (simp add: physical_rows_def mo_vector_flat_def mo_vector_constant_def)
  have loop: "?f < 0 \<Longrightarrow> varlena_loop abi (ec_data enc) (ec_area enc) 0 n = Inr () \<and>
      length (ec_data enc) = n * VARLENA_SIZE abi"
    using ok strings mts text_size by (auto simp: varlena_loop_iff encoded_ok_def varlena_size)
  have area: "\<not> ?f < 0 \<Longrightarrow> ec_area enc = []" using ok strings by (simp add: encoded_ok_def)
  have cls: "mo_vector_flat = 0" "mo_vector_constant = 1" by (simp_all add: mo_vector_flat_def mo_vector_constant_def)
  have read1: "cursor_read (Suc 0) v = Inr ([0], encode_mo_type ?t @ store_le 4 (of_nat n :: u32) @ framed (ec_data enc) @
      framed (ec_area enc) @ framed (ec_nulls enc) @ [0])" "cursor_read (Suc 0) [0] = Inr ([0 :: byte], [])"
    using v(5) cursor_read_append [of "[0]" 1] by (simp_all add: cursor_read_def)
  note reads = read1 cursor_read_append cursor_u32_append v(2-4) [THEN cursor_block_framed] decode_encode_mo_type
    mo_type_bytes_def
  have "parse_column abi v (of_nat n) expected = Inr ?col"
  proof (cases "?f < 0")
    case True
    have "unat (of_nat n * of_nat (VARLENA_SIZE abi) :: u64) = n * VARLENA_SIZE abi"
      using product_fits [of "of_nat n" "VARLENA_SIZE abi"] n rows varlena_size by simp
    with True loop [OF True] phys show ?thesis
      by (simp add: parse_column_def reads cls match logical len [unfolded es [symmetric]] words Let_def)
  next
    case False
    have "unat (of_nat n * of_int ?f :: u64) = length (ec_data enc)" using False es len by (simp del: of_int_of_nat_eq)
    with False area [OF False] show ?thesis
      by (simp add: parse_column_def reads cursor_block_framed cls match logical len [unfolded es [symmetric]] words Let_def)
  qed
  moreover have "card {i. i < n \<and> ns ! i} \<le> n" using card_mono [of "{..<n}" "{i. i < n \<and> ns ! i}"] by auto
  then have "unat (of_nat (card {i. i < n \<and> ns ! i}) :: u64) = card {i. i < n \<and> ns ! i}"
    using n by (intro unat_of_nat_u64) simp
  ultimately show ?thesis using rows words(2) by (intro exI [of _ ?col]) (simp add: view_of_def)
qed

lemma parse_assembled_vectors:
  assumes "length vs = length types" and "length cs = length types" and "length encs = length types"
    and "\<And>i. i < length types \<Longrightarrow> assemble_vector abi n (cs ! i) (encs ! i) = Inr (vs ! i) \<and> length (vs ! i) \<le> 0xffffffff"
    and "\<And>i. i < length types \<Longrightarrow> encoded_ok abi n (cs ! i) (nss i) (encs ! i)"
    and "\<And>i. i < length types \<Longrightarrow> substrait_matches_mo abi (types ! i) (result_mo_type abi (cs ! i)) \<and> unat (col_oid (cs ! i)) < 256"
  shows "\<exists>cols. parse_columns abi (of_nat n) types (concat (map framed vs) @ rest) = Inr (cols, rest) \<and>
    length cols = length types \<and> (\<forall>i < length types. view_of abi n (cs ! i) (nss i) (encs ! i) (cols ! i))"
  using assms
proof (induction types arbitrary: vs cs encs nss)
  case (Cons t types)
  from Cons.prems(1-3) obtain v vs' c cs' e encs' where eqs: "vs = v # vs'" "cs = c # cs'" "encs = e # encs'"
    by (metis length_Suc_conv)
  have head: "assemble_vector abi n c e = Inr v" "length v \<le> 0xffffffff" "encoded_ok abi n c (nss 0) e"
    "substrait_matches_mo abi t (result_mo_type abi c)" "unat (col_oid c) < 256"
    using Cons.prems(4,5,6) [of 0] eqs by simp_all
  from parse_assembled_vector [OF head(1,3,4,5)] obtain col where
    col: "parse_column abi v (of_nat n) t = Inr col" "view_of abi n c (nss 0) e col" by blast
  have "\<exists>cols. parse_columns abi (of_nat n) types (concat (map framed vs') @ rest) = Inr (cols, rest) \<and>
    length cols = length types \<and> (\<forall>i < length types. view_of abi n (cs' ! i) (nss (Suc i)) (encs' ! i) (cols ! i))"
    by (rule Cons.IH) (use Cons.prems(1-3) eqs Cons.prems(4,5,6) [of "Suc i" for i] in auto)
  then obtain cols where cols: "parse_columns abi (of_nat n) types (concat (map framed vs') @ rest) = Inr (cols, rest)"
    "length cols = length types" "\<forall>i < length types. view_of abi n (cs' ! i) (nss (Suc i)) (encs' ! i) (cols ! i)" by blast
  show ?case
    using head(2) col cols eqs
    by (intro exI [of _ "col # cols"]) (auto simp: cursor_block_framed nth_Cons split: nat.split)
qed simp

lemma parse_assembled_batch:
  assumes asm: "assemble_native_batch abi n schema encs = Inr payload" and n: "0 < n"
    and lens: "length (ns_names named) = length encs" "length (ns_types named) = length encs"
      "length (sch_columns schema) = length encs" "length encs < 2 ^ 31" "0 < length encs"
    and ok: "\<And>i. i < length encs \<Longrightarrow> encoded_ok abi n (sch_columns schema ! i) (nss i) (encs ! i)"
    and match: "\<And>i. i < length encs \<Longrightarrow> substrait_matches_mo abi (ns_types named ! i) (result_mo_type abi (sch_columns schema ! i)) \<and>
      unat (col_oid (sch_columns schema ! i)) < 256"
  shows "\<exists>view. new_native_batch_view abi frame \<lparr>nf_sequence = sq, nf_payload = payload\<rparr> named = Inr view \<and>
    unat (bv_rows view) = n \<and> length (bv_columns view) = length encs \<and>
    (\<forall>i < length encs. view_of abi n (sch_columns schema ! i) (nss i) (encs ! i) (bv_columns view ! i))"
proof -
  from assemble_native_batch_InrD [OF asm] obtain vs where vs: "length vs = length encs"
    "\<And>i. i < length encs \<Longrightarrow> assemble_vector abi n (sch_columns schema ! i) (encs ! i) = Inr (vs ! i)"
    "\<And>i. i < length encs \<Longrightarrow> length (vs ! i) \<le> 0xffffffff"
    "payload = store_le 8 (of_nat n :: u64) @ store_le 4 (of_nat (length encs) :: u32) @ concat (map framed vs) @ replicate 16 0"
    by blast
  have small: "n \<le> 0xffffffff" using assemble_vector_InrD(1) [OF vs(2)] lens(5) by blast
  have "\<exists>cols. parse_columns abi (of_nat n) (ns_types named) (concat (map framed vs) @ replicate 16 0) = Inr (cols, replicate 16 0) \<and>
      length cols = length (ns_types named) \<and>
      (\<forall>i < length (ns_types named). view_of abi n (sch_columns schema ! i) (nss i) (encs ! i) (cols ! i))"
    by (rule parse_assembled_vectors) (use lens vs ok match in auto)
  then obtain cols where cols: "parse_columns abi (of_nat n) (ns_types named) (concat (map framed vs) @ replicate 16 0) =
      Inr (cols, replicate 16 0)" "length cols = length encs"
    "\<forall>i < length encs. view_of abi n (sch_columns schema ! i) (nss i) (encs ! i) (cols ! i)"
    using lens(2) by auto
  have ints: "sint (of_nat n :: u64) = int n" "sint (of_nat (length encs) :: u32) = int (length encs)"
    using small lens(4) by (simp_all add: sint_of_nat_u64 sint_of_nat_u32)
  have rows: "unat (of_nat n :: u64) = n" using small by (intro unat_of_nat_u64) simp
  then have nz: "(of_nat n :: u64) \<noteq> 0" using n by (metis unat_0 less_irrefl)
  have zero: "cursor_i32 (replicate (4 + k) 0) = Inr (0, replicate k 0)" for k
  proof -
    have "replicate (4 + k) 0 = store_le 4 (0 :: u32) @ replicate k 0" by (simp add: store_le_def numeral_eq_Suc)
    then show ?thesis by (simp only: cursor_i32_def cursor_u32_append) simp
  qed
  have trailer: "cursor_i32 (replicate 16 0) = Inr (0, replicate 12 0)" "parse_trailer (replicate 12 0) = Inr ()"
    using zero [of 12] zero [of 8] zero [of 4] zero [of 0] by (simp_all add: parse_trailer_def)
  show ?thesis
    using small ints nz rows cols trailer lens n
    by (auto simp: new_native_batch_view_def vs(4) varlena_size cursor_i64_append cursor_i32_def [of "store_le 4 _ @ _"]
        cursor_u32_append Let_def)
qed

text \<open>The scan reads the string of a descriptor.\<close>

lemma fill_text_text_of:
  assumes "descriptor_ok abi (cv_area col) (descriptor abi (cv_data col) i)" and "(i + 1) * 24 \<le> length (cv_data col)"
    and "\<not> is_null col i"
  shows "fill_text abi is_null col i = Inr (Str (text_of abi (cv_area col) (descriptor abi (cv_data col) i)))"
proof -
  let ?v = "descriptor abi (cv_data col) i"
  have v: "mem_read (cv_data col) (i * VARLENA_SIZE abi) 24 = Inr ?v" "length ?v = 24"
    using assms(2) by (auto simp: mem_read_def descriptor_def varlena_size)
  show ?thesis
  proof (cases "vl_is_inline abi ?v")
    case True
    then have "unat (ucast (?v ! 0) :: u32) \<le> 23" by (simp add: is_inline unsigned_ucast_eq take_bit_nat_eq_self)
    then show ?thesis using True v assms(3)
      by (simp add: fill_text_def text_of_def mem_read_def inline_length inline_data)
  next
    case False
    then show ?thesis using v assms(1,3)
      by (simp add: fill_text_def text_of_def mem_read_def descriptor_ok_def)
  qed
qed

end

section \<open>Columns of DuckDB chunks\<close>

text \<open>The string of a row of a chunk, and whether the row is null.\<close>

definition vector_null :: "unified_vector \<Rightarrow> nat \<Rightarrow> nat \<Rightarrow> bool" where
  "vector_null v off row \<longleftrightarrow> \<not> uv_valid v (uv_sel v (off + row))"

definition vector_string :: "unified_vector \<Rightarrow> nat \<Rightarrow> nat \<Rightarrow> bytes" where
  "vector_string v off row = (if vector_null v off row then [] else uv_strings v (uv_sel v (off + row)))"

text \<open>The null words that the loop keeps are those of \<^verbatim>\<open>encode_nulls\<close> on the first \<open>k\<close> rows.\<close>

definition nulls_upto :: "(nat \<Rightarrow> bool) \<Rightarrow> nat \<Rightarrow> nat \<Rightarrow> u64 list \<times> u64" where
  "nulls_upto null n k = fold (\<lambda>row st. if null row then set_null row st else st) [0..<k] (no_nulls n)"

lemma nulls_upto_table: "null_table n (nulls_upto null n n) = encode_nulls (map null [0..<n])"
proof -
  have "fold (\<lambda>row st. if null row then set_null row st else st) [0..<n] st =
      fold (\<lambda>row st. if map null [0..<n] ! row then set_null row st else st) [0..<n] st" for st
    by (rule fold_cong) auto
  then show ?thesis by (simp add: nulls_upto_def encode_nulls_def)
qed

context tae_layout
begin

lemma vector_value_length:
  assumes "vector_value abi c v source = Inr b"
  shows "length b = nat (mo_type_size abi (col_oid c))"
proof -
  let ?oid = "unat (col_oid c)"
  consider "?oid = MO_T_uint32 abi" | "?oid = MO_T_date abi" | "?oid \<noteq> MO_T_uint32 abi" "?oid \<noteq> MO_T_date abi" by blast
  then show ?thesis
  proof cases
    case 1
    then show ?thesis using assms
      by (auto simp: vector_value_def mo_type_size_def Let_def int_types split: if_split_asm)
  next
    case 2
    then show ?thesis using assms
      by (auto simp: vector_value_def mo_type_size_def Let_def int_types date_type split: if_split_asm)
  next
    case 3
    then show ?thesis using assms mem_read_exact by (auto simp: vector_value_def Let_def)
  qed
qed

lemma encode_column_ok:
  assumes "encode_column abi v off n c = Inr enc"
  shows "encoded_ok abi n c (map (vector_null v off) [0..<n]) enc \<and>
    (is_text abi (col_oid c) \<longrightarrow> texts_ok abi (vector_string v off) n enc)"
proof -
  let ?w = "nat (mo_type_size abi (col_oid c))"
  let ?P = "\<lambda>k st. snd st = nulls_upto (vector_null v off) n k \<and> length (ec_data (fst st)) = k * ?w \<and>
    (if is_text abi (col_oid c) then texts_ok abi (vector_string v off) k (fst st) else ec_area (fst st) = [])"
  from assms obtain out nulls where
    fold: "foldR (encode_column_row abi c v off) [0..<n] (empty_encoded, no_nulls n) = Inr (out, nulls)"
    and enc: "enc = out\<lparr>ec_nulls := null_table n nulls\<rparr>"
    by (auto simp: encode_column_def)
  have "?P n (out, nulls)"
  proof (rule foldR_invariant [OF fold, where P = ?P])
    fix i st st' assume inv: "?P i st" and step: "encode_column_row abi c v off i st = Inr st'"
    obtain u ns where st: "st = (u, ns)" by (cases st)
    have nulls: "snd st' = nulls_upto (vector_null v off) n (Suc i)"
      using inv step st
      by (auto simp: encode_column_row_def Let_def nulls_upto_def vector_null_def split: if_split_asm)
    show "?P (Suc i) st'"
    proof (cases "is_text abi (col_oid c)")
      case False
      then have "\<exists>b. fst st' = append_data b u \<and> length b = ?w"
        using step st by (auto simp: encode_column_row_def Let_def dest: vector_value_length split: if_split_asm)
      then show ?thesis using nulls inv st False by (auto simp: append_data_def)
    next
      case True
      have ok: "texts_ok abi (vector_string v off) i u" using inv st True by simp
      have "texts_ok abi (vector_string v off) (Suc i) (fst st')"
      proof (cases "vector_null v off i")
        case null: True
        then have "fst st' = append_data (replicate 24 0) u"
          using step st True by (auto simp: encode_column_row_def Let_def vector_null_def split: if_split_asm)
        then show ?thesis
          using null null_descriptor
          by (intro texts_ok_Suc [OF ok, of _ "replicate 24 0" "[]"])
            (auto simp: append_data_def varlena_size vector_string_def)
      next
        case valid: False
        then have app: "append_varlena abi (vector_string v off i) u = Inr (fst st')"
          using step st True
          by (auto simp: encode_column_row_def Let_def vector_null_def vector_string_def split: if_split_asm)
        obtain d ext where "ec_data (fst st') = ec_data u @ d" "length d = 24" "ec_area (fst st') = ec_area u @ ext"
          "descriptor_ok abi (ec_area (fst st')) d" "text_of abi (ec_area (fst st')) d = vector_string v off i"
          by (rule append_varlena_ok [OF app])
        then show ?thesis using varlena_size by (intro texts_ok_Suc [OF ok, of _ d ext]) simp_all
      qed
      then show ?thesis using nulls True by (simp add: texts_ok_def varlena_size text_size)
    qed
  qed (simp add: nulls_upto_def empty_encoded_def texts_ok_def)
  then show ?thesis
    using enc by (auto simp: encoded_ok_def nulls_upto_table texts_ok_def split: if_split_asm)
qed

end

end
