(* ===== verification/Consume_Batch.thy ===== *)
theory Consume_Batch
  imports Execution_Entry Native_Result
begin

text \<open>
  \<^verbatim>\<open>execution_entry::consume_batch\<close> of \<^verbatim>\<open>flight_runtime.cpp\<close>: the worker splits one Sirius batch into
  native batches that fit the negotiated \<^verbatim>\<open>max_batch_bytes\<close> and publishes them one by one.
\<close>

section \<open>Halving the row range\<close>

lemma encoded_size_rows: "encoded_size abi en off rows = Inr n \<Longrightarrow> rows \<noteq> 0 \<and> off + rows \<le> en_rows en"
  by (auto simp: encoded_size_def bad_row_range_def split: if_split_asm)

text \<open>The inner loop.  It ends because \<^verbatim>\<open>encoded_size\<close> throws on an empty range.\<close>

function fit_rows :: "tae_abi \<Rightarrow> 'g native_result_batch_encoder \<Rightarrow> u64 \<Rightarrow> nat \<Rightarrow> nat \<Rightarrow> nat res" where
  "fit_rows abi en limit off rows =
     bindR (encoded_size abi en off rows) (\<lambda>n.
       if n > limit then
         if rows = 1 then Inl (Runtime_error ''one MO native result row exceeds negotiated max_batch_bytes'')
         else fit_rows abi en limit off (rows div 2)
       else Inr rows)"
  by pat_completeness auto

termination fit_rows
  by (relation "measure (\<lambda>(abi, en, limit, off, rows). rows)") (auto dest: encoded_size_rows)

declare fit_rows.simps [simp del]

text \<open>The range it settles for is not empty, starts where the old one did, and its announced size is within the limit.\<close>

lemma fit_rows_InrD:
  assumes "fit_rows abi en limit off rows = Inr r"
  shows "0 < r \<and> r \<le> rows \<and> (\<exists>n. encoded_size abi en off r = Inr n \<and> n \<le> limit)"
  using assms
proof (induction abi en limit off rows rule: fit_rows.induct)
  case (1 abi en limit off rows)
  from 1(2) obtain n where n: "encoded_size abi en off rows = Inr n"
    by (subst (asm) fit_rows.simps) auto
  show ?case
  proof (cases "n > limit")
    case True
    then have "rows \<noteq> 1" and "fit_rows abi en limit off (rows div 2) = Inr r"
      using 1(2) n by (subst (asm) (1) fit_rows.simps; auto split: if_split_asm)+
    from 1(1) [OF n True this] show ?thesis by auto
  next
    case False
    then have "r = rows" using 1(2) n by (subst (asm) fit_rows.simps) simp
    then show ?thesis using False n encoded_size_rows [OF n] by auto
  qed
qed

section \<open>The outer loop\<close>

text \<open>One published piece: its rows and the frame that was handed to the reader.\<close>

record piece =
  pc_offset :: nat
  pc_rows :: nat
  pc_payload :: bytes
  pc_frame :: bytes

text \<open>\<open>answer k\<close> is what the \<open>k\<close>-th call of \<^verbatim>\<open>publish\<close> returns once its waits are over; of the entry the
  loop reads the request and counts the sequence number up, the rest belongs to the other threads.\<close>

function consume_loop ::
  "tae_abi \<Rightarrow> 'ld float_ops \<Rightarrow> 'g gpu_ops \<Rightarrow> 'g native_result_batch_encoder \<Rightarrow> (nat \<Rightarrow> chunk_action) \<Rightarrow>
    execution_entry \<Rightarrow> nat \<Rightarrow> piece list \<Rightarrow> execution_entry \<times> piece list \<times> chunk_action res" where
  "consume_loop abi fl gpu en answer e off ps =
     (if \<not> off < en_rows en then (e, ps, Inr CONTINUE)
      else
        case fit_rows abi en (er_max_batch_bytes (ee_request e)) off (en_rows en - off) of
          Inl x \<Rightarrow> (e, ps, Inl x)
        | Inr rows \<Rightarrow>
            (case encode abi fl gpu en off rows of
               Inl x \<Rightarrow> (e, ps, Inl x)
             | Inr payload \<Rightarrow>
                 (case publish_frame e payload of
                    Inl x \<Rightarrow> (e, ps, Inl x)
                  | Inr (e', frame) \<Rightarrow>
                      let ps' = ps @ [\<lparr>pc_offset = off, pc_rows = rows, pc_payload = payload, pc_frame = frame\<rparr>] in
                      if answer (length ps) = CANCEL then (e', ps', Inr CANCEL)
                      else consume_loop abi fl gpu en answer e' (off + rows) ps')))"
  by pat_completeness auto

termination consume_loop
  by (relation "measure (\<lambda>(abi, fl, gpu, en, answer, e, off, ps). en_rows en - off)") (auto dest: fit_rows_InrD)

declare consume_loop.simps [simp del]

definition consume_batch ::
  "tae_abi \<Rightarrow> 'ld float_ops \<Rightarrow> 'g gpu_ops \<Rightarrow> string option \<Rightarrow> (nat \<Rightarrow> chunk_action) \<Rightarrow> u64 \<Rightarrow>
    native_result_schema \<Rightarrow> execution_entry \<Rightarrow> 'g batch_data \<Rightarrow> execution_entry \<times> piece list \<times> chunk_action res" where
  "consume_batch abi fl gpu threshold_env answer now schema e data =
     (if now \<ge> er_deadline_unix_ms (ee_request e) then (fst (ee_cancel True e), [], Inr CANCEL)
      else
        case new_batch_encoder abi gpu threshold_env schema data of
          Inl x \<Rightarrow> (e, [], Inl x)
        | Inr en \<Rightarrow> consume_loop abi fl gpu en answer e 0 [])"

end
