(* ===== verification/Result_Correct.thy ===== *)
theory Result_Correct
  imports Consume_Batch Native_Result_Correct Execution_Entry_Correct
begin

text \<open>
  What the result path promises: the two batch builders agree, an encoded batch is read back by the
  sidecar's own decoder with the strings of the host table, a piece that \<^verbatim>\<open>consume_batch\<close> settles for is always
  accepted by \<^verbatim>\<open>publish\<close>, and the pieces cover the rows of the batch exactly once.
\<close>

section \<open>The two batch builders\<close>

lemma vectors_foldR_intro:
  assumes "length vs = k" and "\<And>i. i < k \<Longrightarrow> vec i = Inr (vs ! i) \<and> length (vs ! i) \<le> 0xffffffff"
  shows "foldR (\<lambda>i out. bindR (vec i) (\<lambda>v. bindR (append_u32 out (length v) what) (\<lambda>out'. Inr (out' @ v)))) [0..<k] out0 =
    Inr (out0 @ concat (map framed vs))"
  using assms
proof (induction k arbitrary: vs)
  case (Suc k)
  from Suc.prems(1) obtain us u where vs: "vs = us @ [u]" "length us = k" by (metis length_Suc_conv_rev)
  have "foldR (\<lambda>i out. bindR (vec i) (\<lambda>v. bindR (append_u32 out (length v) what) (\<lambda>out'. Inr (out' @ v)))) [0..<k] out0 =
      Inr (out0 @ concat (map framed us))"
  proof (rule Suc.IH [OF vs(2)])
    fix i assume "i < k"
    then show "vec i = Inr (us ! i) \<and> length (us ! i) \<le> 0xffffffff" using Suc.prems(2) [of i] vs by (simp add: nth_append)
  qed
  moreover have "vec k = Inr u" "length u \<le> 0xffffffff" using Suc.prems(2) [of k] vs by auto
  ultimately show ?case using vs by (simp add: foldR_append append_u32_def framed_def [of u])
qed simp

lemma mapR_iff:
  "mapR f xs = Inr ys \<longleftrightarrow> length ys = length xs \<and> (\<forall>i < length xs. f (xs ! i) = Inr (ys ! i))"
proof
  assume "mapR f xs = Inr ys"
  then show "length ys = length xs \<and> (\<forall>i < length xs. f (xs ! i) = Inr (ys ! i))"
    using mapR_length mapR_nth by blast
next
  assume *: "length ys = length xs \<and> (\<forall>i < length xs. f (xs ! i) = Inr (ys ! i))"
  then have "f x = Inr (projr (f x))" if "x \<in> set xs" for x using that by (metis in_set_conv_nth sum.sel(2))
  from mapR_Inr [of xs f "\<lambda>x. projr (f x)", OF this] * show "mapR f xs = Inr ys"
    by (auto intro!: nth_equalityI)
qed

lemma foldR_Nil_Inr: "foldR f [] = Inr"
  by (rule ext) simp

lemma foldR_list_upt: "foldR f xs s = foldR (\<lambda>i. f (xs ! i)) [0..<length xs] s"
proof (induction xs arbitrary: s rule: rev_induct)
  case (snoc x xs)
  have cong: "foldR g ys s = foldR h ys s" if "\<And>y u. y \<in> set ys \<Longrightarrow> g y u = h y u" for g h ys s
    using that
  proof (induction ys arbitrary: s)
    case (Cons y ys)
    then have "foldR g ys = foldR h ys" by (intro ext) simp
    with Cons.prems show ?case by simp
  qed simp
  have "foldR (\<lambda>i. f ((xs @ [x]) ! i)) [0..<length xs] s = foldR (\<lambda>i. f (xs ! i)) [0..<length xs] s"
    by (rule cong) (simp add: nth_append)
  moreover have "foldR f [x] = foldR (\<lambda>i. f ((xs @ [x]) ! i)) [length xs]" by (rule ext) (simp add: foldR_Nil_Inr)
  ultimately show ?case using snoc by (simp add: foldR_append)
qed simp

text \<open>The DuckDB path and \<^verbatim>\<open>assemble_native_batch\<close> produce the same bytes.\<close>

lemma encode_native_result_batch_iff:
  assumes range: "0 < n" "off \<le> dc_size chunk" "n \<le> dc_size chunk - off" "length (dc_columns chunk) = length (sch_columns schema)"
  shows "encode_native_result_batch abi chunk off n schema = Inr payload \<longleftrightarrow>
    (\<exists>cols. mapR (\<lambda>i. encode_column abi (dc_columns chunk ! i) off n (sch_columns schema ! i)) [0..<length (sch_columns schema)] = Inr cols \<and>
       assemble_native_batch abi n schema cols = Inr payload)"
    (is "?L \<longleftrightarrow> ?R")
proof -
  let ?k = "length (sch_columns schema)"
  let ?enc = "\<lambda>i. encode_column abi (dc_columns chunk ! i) off n (sch_columns schema ! i)"
  let ?vec = "\<lambda>i. bindR (?enc i) (assemble_vector abi n (sch_columns schema ! i))"
  let ?head = "store_le 8 (of_nat n :: u64) @ store_le 4 (of_nat ?k :: u32)"
  have zero: "store_le 4 (0 :: u32) @ store_le 4 (0 :: u32) @ store_le 4 (0 :: u32) @ store_le 4 (0 :: u32) = replicate 16 0"
    by (simp add: store_le_def numeral_eq_Suc)
  have left: "?L \<longleftrightarrow> (\<exists>vs. length vs = ?k \<and> (\<forall>i < ?k. ?vec i = Inr (vs ! i) \<and> length (vs ! i) \<le> 0xffffffff) \<and>
      payload = ?head @ concat (map framed vs) @ replicate 16 0)" (is "_ \<longleftrightarrow> ?V")
  proof
    assume ?L
    then obtain vs out where vs: "mapR ?vec [0..<?k] = Inr vs"
      and out: "foldR (\<lambda>v out. bindR (append_u32 out (length v) ''native result vector'') (\<lambda>out'. Inr (out' @ v))) vs
        (store_le 8 (of_nat n :: u64) @ store_le 4 (of_nat (length vs) :: u32)) = Inr out"
      and payload: "payload = out @ replicate 16 0"
      using range zero by (auto simp: encode_native_result_batch_def)
    have len: "length vs = ?k" using mapR_length [OF vs] by simp
    from out have "foldR (\<lambda>i out. bindR (Inr (vs ! i)) (\<lambda>v. bindR (append_u32 out (length v) ''native result vector'')
        (\<lambda>out'. Inr (out' @ v)))) [0..<?k] ?head = Inr out"
      by (subst (asm) foldR_list_upt) (simp add: len)
    from vectors_foldR [OF this] len obtain us where "length us = ?k" "\<forall>i < ?k. vs ! i = us ! i \<and> length (us ! i) \<le> 0xffffffff"
      "out = ?head @ concat (map framed us)" by auto
    then show ?V using vs payload len by (intro exI [of _ us]) (auto simp: mapR_iff)
  next
    assume ?V
    then obtain vs where vs: "length vs = ?k" "\<forall>i < ?k. ?vec i = Inr (vs ! i) \<and> length (vs ! i) \<le> 0xffffffff"
      "payload = ?head @ concat (map framed vs) @ replicate 16 0" by blast
    have "mapR ?vec [0..<?k] = Inr vs" using vs(1,2) by (simp add: mapR_iff)
    moreover have "foldR (\<lambda>v out. bindR (append_u32 out (length v) ''native result vector'') (\<lambda>out'. Inr (out' @ v))) vs ?head =
        Inr (?head @ concat (map framed vs))"
      using vectors_foldR_intro [of vs ?k "\<lambda>i. Inr (vs ! i)" "''native result vector''" ?head] vs(1,2)
      by (subst foldR_list_upt) simp
    ultimately show ?L using range zero vs by (simp add: encode_native_result_batch_def)
  qed
  show ?thesis
  proof
    assume ?L
    then obtain vs where vs: "length vs = ?k" "\<forall>i < ?k. ?vec i = Inr (vs ! i) \<and> length (vs ! i) \<le> 0xffffffff"
      "payload = ?head @ concat (map framed vs) @ replicate 16 0" unfolding left by blast
    let ?cols = "map (\<lambda>i. projr (?enc i)) [0..<?k]"
    have cols: "?enc i = Inr (?cols ! i)" "assemble_vector abi n (sch_columns schema ! i) (?cols ! i) = Inr (vs ! i)" if "i < ?k" for i
      using vs(2) that by auto
    have "mapR ?enc [0..<?k] = Inr ?cols" using cols(1) by (simp add: mapR_iff)
    moreover have "assemble_native_batch abi n schema ?cols = Inr payload"
      using vectors_foldR_intro [of vs ?k "\<lambda>i. assemble_vector abi n (sch_columns schema ! i) (?cols ! i)"] vs cols(2) zero
      by (simp add: assemble_native_batch_def)
    ultimately show ?R by blast
  next
    assume ?R
    then obtain cols where cols: "mapR ?enc [0..<?k] = Inr cols" "assemble_native_batch abi n schema cols = Inr payload" by blast
    have len: "length cols = ?k" using mapR_length [OF cols(1)] by simp
    obtain vs where
      "length vs = ?k" "\<And>i. i < ?k \<Longrightarrow> assemble_vector abi n (sch_columns schema ! i) (cols ! i) = Inr (vs ! i)"
      "\<And>i. i < ?k \<Longrightarrow> length (vs ! i) \<le> 0xffffffff" "payload = ?head @ concat (map framed vs) @ replicate 16 0"
      by (rule assemble_native_batch_InrD [OF cols(2), unfolded len]) simp
    moreover have "?enc i = Inr (cols ! i)" if "i < ?k" for i using mapR_nth [OF cols(1), of i] that by simp
    ultimately show ?L unfolding left by (intro exI [of _ vs]) simp
  qed
qed

section \<open>The pieces of a batch\<close>

definition pieces_ok ::
  "tae_abi \<Rightarrow> 'ld float_ops \<Rightarrow> 'g gpu_ops \<Rightarrow> 'g native_result_batch_encoder \<Rightarrow> u64 \<Rightarrow> u64 \<Rightarrow> piece list \<Rightarrow> bool" where
  "pieces_ok abi fl gpu en limit seq0 ps \<longleftrightarrow>
     (\<forall>k < length ps. pc_offset (ps ! k) = (\<Sum>j < k. pc_rows (ps ! j)) \<and> 0 < pc_rows (ps ! k) \<and>
        encode abi fl gpu en (pc_offset (ps ! k)) (pc_rows (ps ! k)) = Inr (pc_payload (ps ! k)) \<and>
        length (pc_payload (ps ! k)) \<le> unat limit \<and>
        serialize_native_batch_frame (seq0 + of_nat (Suc k)) (pc_payload (ps ! k)) = Inr (pc_frame (ps ! k)))"

definition covered :: "piece list \<Rightarrow> nat" where
  "covered ps = (\<Sum>j < length ps. pc_rows (ps ! j))"

lemma covered_append: "covered (ps @ [p]) = covered ps + pc_rows p"
  by (simp add: covered_def nth_append)

lemma pieces_ok_append:
  assumes "pieces_ok abi fl gpu en limit seq0 ps" and "pc_offset p = covered ps" and "0 < pc_rows p"
    and "encode abi fl gpu en (pc_offset p) (pc_rows p) = Inr (pc_payload p)" and "length (pc_payload p) \<le> unat limit"
    and "serialize_native_batch_frame (seq0 + of_nat (Suc (length ps))) (pc_payload p) = Inr (pc_frame p)"
  shows "pieces_ok abi fl gpu en limit seq0 (ps @ [p])"
  using assms by (auto simp: pieces_ok_def covered_def nth_append less_Suc_eq)

lemma ee_cancel_sequence: "ee_sequence (fst (ee_cancel timed_out e)) = ee_sequence e"
  by (auto simp: ee_cancel_def ee_terminate_def terminate_begin_def terminate_end_def ee_cancel_inputs_def
      maybe_notify_terminal_def Let_def)

lemma consume_loop_pieces:
  assumes "consume_loop abi fl gpu en answer e off ps = (f, qs, res)"
    and "pieces_ok abi fl gpu en (er_max_batch_bytes (ee_request e)) seq0 ps" and "off = covered ps" and "off \<le> en_rows en"
    and "ee_sequence e = seq0 + of_nat (length ps)"
  shows "pieces_ok abi fl gpu en (er_max_batch_bytes (ee_request e)) seq0 qs \<and> covered qs \<le> en_rows en \<and>
    (res = Inr CONTINUE \<longrightarrow> covered qs = en_rows en) \<and> f = e\<lparr>ee_sequence := seq0 + of_nat (length qs)\<rparr>"
  using assms
proof (induction abi fl gpu en answer e off ps rule: consume_loop.induct)
  case (1 abi fl gpu en answer e off ps)
  let ?limit = "er_max_batch_bytes (ee_request e)"
  show ?case
  proof (cases "off < en_rows en")
    case False
    then show ?thesis using 1(2-6) by (subst (asm) consume_loop.simps) auto
  next
    case True
    show ?thesis
    proof (cases "fit_rows abi en ?limit off (en_rows en - off)")
      case (Inl x)
      then show ?thesis using True 1(2-6) by (subst (asm) consume_loop.simps) auto
    next
      case rows: (Inr rows)
      note fit = fit_rows_InrD [OF rows]
      show ?thesis
      proof (cases "encode abi fl gpu en off rows")
        case (Inl x)
        then show ?thesis using True rows 1(2-6) by (subst (asm) consume_loop.simps) auto
      next
        case payload: (Inr payload)
        show ?thesis
        proof (cases "publish_frame e payload")
          case (Inl x)
          then show ?thesis using True rows payload 1(2-6) by (subst (asm) consume_loop.simps) auto
        next
          case (Inr ef)
          then obtain e' frame where pub: "publish_frame e payload = Inr (e', frame)" by (cases ef) auto
          note eff = publish_frame_effect [OF pub]
          let ?p = "\<lparr>pc_offset = off, pc_rows = rows, pc_payload = payload, pc_frame = frame\<rparr>"
          have e': "e' = e\<lparr>ee_sequence := ee_sequence e'\<rparr>" "ee_request e' = ee_request e" "ee_sequence e' = seq0 + of_nat (length (ps @ [?p]))"
            using eff 1(6) by (simp_all add: ac_simps)
          have ok: "pieces_ok abi fl gpu en ?limit seq0 (ps @ [?p])"
            using eff fit payload 1(3,4,6) by (intro pieces_ok_append) (simp_all add: ac_simps)
          have cov: "off + rows = covered (ps @ [?p])" "off + rows \<le> en_rows en"
            using fit True 1(4) by (auto simp: covered_append)
          show ?thesis
          proof (cases "answer (length ps) = CANCEL")
            case True': True
            have "(f, qs, res) = (e', ps @ [?p], Inr CANCEL)"
              using 1(2) True True' rows payload pub by (subst (asm) consume_loop.simps) (simp add: Let_def)
            then show ?thesis using ok cov e' by auto
          next
            case False
            have "consume_loop abi fl gpu en answer e' (off + rows) (ps @ [?p]) = (f, qs, res)"
              using 1(2) True False rows payload pub by (subst (asm) consume_loop.simps) (simp add: Let_def)
            from 1(1) [OF _ rows payload pub refl refl False this] True ok cov e' show ?thesis by simp
          qed
        qed
      qed
    qed
  qed
qed

lemma pieces_count: "pieces_ok abi fl gpu en limit seq0 ps \<Longrightarrow> length ps \<le> covered ps"
proof -
  assume "pieces_ok abi fl gpu en limit seq0 ps"
  then have "(\<Sum>j < length ps. 1) \<le> covered ps"
    unfolding covered_def pieces_ok_def by (intro sum_mono) (simp add: Suc_le_eq)
  then show ?thesis by simp
qed

section \<open>A concrete table\<close>

text \<open>One \<open>VARCHAR\<close> column of two rows, \<open>hi\<close> and twenty-four letters, in blocks of sixteen bytes: three 32-bit
  offsets, then the characters.\<close>

definition demo_chars :: bytes where
  "demo_chars = [104, 105] @ replicate 24 120"

definition demo_allocation :: host_allocation where
  "demo_allocation =
     (let m = store_le 4 (0 :: u32) @ store_le 4 (2 :: u32) @ store_le 4 (26 :: u32) @ demo_chars @ replicate 10 0 in
      \<lparr>ha_block_size = 16, ha_size_bytes = 48, ha_blocks = [take 16 m, take 16 (drop 16 m), drop 32 m]\<rparr>)"

definition demo_offsets :: column_metadata where
  "demo_offsets = Column_metadata T_INT32 0 3 True 0 12 False 0 0 []"

definition demo_host_column :: column_metadata where
  "demo_host_column = Column_metadata T_STRING 0 2 True 12 26 False 0 0 [demo_offsets]"

definition demo_host_table :: host_table where
  "demo_host_table = \<lparr>ht_allocation = Some demo_allocation, ht_columns = [demo_host_column]\<rparr>"

definition demo_result_schema :: native_result_schema where
  "demo_result_schema =
     \<lparr>sch_version = 1, sch_columns = [\<lparr>col_name = [97], col_oid = 41, col_width = 0, col_scale = 0, col_charset = 0,
        col_not_nullable = False\<rparr>]\<rparr>"

text \<open>No column of the table is floating point, so any operations will do.\<close>

definition demo_float :: "int float_ops" where
  "demo_float =
     \<lparr>fl_is_finite_double = (\<lambda>_. True), fl_of_double = uint, fl_pow10 = (\<lambda>n. 10 ^ nat n), fl_mult = (*), fl_neg = uminus,
      fl_round = id, fl_is_finite = (\<lambda>_. True), fl_le = (\<le>), fl_less = (<), fl_of_int = id, fl_to_int = id\<rparr>"

definition demo_gpu :: "unit gpu_ops" where
  "demo_gpu =
     \<lparr>gp_rows = (\<lambda>_. 0), gp_can_pack = (\<lambda>_ _ _. False), gp_pack = (\<lambda>_ _ _ _. Inr []), gp_context = False,
      gp_reserves = (\<lambda>_. False), gp_to_host = (\<lambda>_. No_data)\<rparr>"

definition demo_encoder :: "unit native_result_batch_encoder" where
  "demo_encoder = \<lparr>en_host = Some demo_host_table, en_gpu = None, en_schema = demo_result_schema, en_rows = 2\<rparr>"

lemma demo_allocation_ok: "allocation_ok demo_allocation"
  by (simp add: demo_allocation_def allocation_ok_def Let_def demo_chars_def)


lemma demo_encoder_new:
  "new_batch_encoder design_abi demo_gpu None demo_result_schema (Host_data (Some demo_host_table)) = Inr demo_encoder"
  by (simp add: new_batch_encoder_def new_host_encoder_def demo_host_table_def demo_result_schema_def demo_encoder_def
      check_host_columns_def demo_host_column_def source_type_matches_def design_abi_def)

lemma demo_encode_eval:
  "case encode design_abi demo_float demo_gpu demo_encoder 0 2 of Inl _ \<Rightarrow> False | Inr payload \<Rightarrow> length payload = 138"
  by code_simp



definition demo_result_entry :: execution_entry where
  "demo_result_entry =
     new_execution_entry (empty_execute_request\<lparr>er_max_batch_bytes := 120, er_deadline_unix_ms := 1000\<rparr>) [7] new_input_registry"

lemma demo_consume_eval:
  "case consume_batch design_abi demo_float demo_gpu None (\<lambda>_. CONTINUE) 0 demo_result_schema demo_result_entry
       (Host_data (Some demo_host_table)) of
     (e, ps, res) \<Rightarrow> length ps = 2 \<and> res = Inr CONTINUE"
  by code_simp

section \<open>Properties of the result path\<close>

text \<open>
  C37: Copying out of a host allocation made of fixed-size blocks equals a slice of the
  concatenated blocks, and is refused exactly when the range leaves the allocation, for every
  64-bit offset; the block loop terminates and never reads outside a block.
\<close>

theorem copy_host_bytes_is_slice:
  assumes "allocation_ok a"
  shows "copy_host_bytes (Some a) off n =
    (if unat off + n \<le> ha_size_bytes a then Inr (take n (drop (unat off) (concat (ha_blocks a))))
     else Inl (Invalid_argument ''native result host buffer range is invalid''))"
  using copy_host_bytes_slice [OF assms] by (simp add: host_bytes_def)

theorem copy_host_bytes_is_slice_witness:
  "copy_host_bytes (Some demo_allocation) 12 26 = Inr (take 26 (drop 12 (concat (ha_blocks demo_allocation))))"
  using copy_host_bytes_is_slice [OF demo_allocation_ok, of 12 26] by (simp add: demo_allocation_def Let_def)



text \<open>
  C36: Whatever the encoder and the reader answer, consume_batch ends, and the pieces it has
  published are non-empty, consecutive from row 0, inside the negotiated size, each the encoding
  of its rows, and framed with the next sequence numbers, by which the sequence counter has
  advanced; when it returns CONTINUE they cover every row of the batch exactly once.
\<close>

theorem consume_batch_covers:
  assumes "new_batch_encoder abi gpu threshold_env schema data = Inr en"
    and "consume_batch abi fl gpu threshold_env answer now schema e data = (e', ps, res)"
  shows "pieces_ok abi fl gpu en (er_max_batch_bytes (ee_request e)) (ee_sequence e) ps \<and>
    length ps \<le> covered ps \<and> covered ps \<le> en_rows en \<and> (res = Inr CONTINUE \<longrightarrow> covered ps = en_rows en) \<and>
    ee_sequence e' = ee_sequence e + of_nat (length ps)"
proof (cases "now \<ge> er_deadline_unix_ms (ee_request e)")
  case True
  then show ?thesis using assms(2) ee_cancel_sequence [of True e] by (auto simp: consume_batch_def pieces_ok_def covered_def)
next
  case False
  then have loop: "consume_loop abi fl gpu en answer e 0 [] = (e', ps, res)" using assms by (auto simp: consume_batch_def)
  have "pieces_ok abi fl gpu en (er_max_batch_bytes (ee_request e)) (ee_sequence e) []" "0 = covered []"
    by (simp_all add: pieces_ok_def covered_def)
  from consume_loop_pieces [OF loop this] have run: "pieces_ok abi fl gpu en (er_max_batch_bytes (ee_request e)) (ee_sequence e) ps \<and>
      covered ps \<le> en_rows en \<and> (res = Inr CONTINUE \<longrightarrow> covered ps = en_rows en) \<and> ee_sequence e' = ee_sequence e + of_nat (length ps)" by simp
  then have "length ps \<le> covered ps" by (blast intro: pieces_count)
  then show ?thesis using run by auto
qed

theorem consume_batch_covers_witness:
  "\<exists>e ps. consume_batch design_abi demo_float demo_gpu None (\<lambda>_. CONTINUE) 0 demo_result_schema demo_result_entry
       (Host_data (Some demo_host_table)) = (e, ps, Inr CONTINUE) \<and> length ps = 2 \<and> covered ps = 2 \<and> ee_sequence e = 2"
proof -
  obtain e ps res where run: "consume_batch design_abi demo_float demo_gpu None (\<lambda>_. CONTINUE) 0 demo_result_schema demo_result_entry
       (Host_data (Some demo_host_table)) = (e, ps, res)" by (metis surj_pair)
  then have "length ps = 2" "res = Inr CONTINUE" using demo_consume_eval by simp_all
  moreover have "covered ps = 2" "ee_sequence e = 2"
    using consume_batch_covers [OF demo_encoder_new run] calculation
    by (simp_all add: demo_encoder_def demo_result_entry_def new_execution_entry_def)
  ultimately show ?thesis using run by blast
qed

text \<open>The scan of an encoded text column gives back the strings of the host table.\<close>

lemma host_text_scanned:
  assumes "tae_layout abi" and enc: "encode_host_column abi fl m allocation off n c = Inr enc"
    and nulls: "read_nulls m allocation off n (col_not_nullable c) = Inr nulls"
    and view: "view_of abi n c nulls enc col" and strings: "is_text abi (col_oid c)" "cm_children m = [offsets]"
    and row: "row < n" "\<not> nulls ! row" "\<not> is_null col row"
  shows "fill_text abi is_null col row = Inr (Str (host_string m offsets allocation (off + row)))"
proof -
  have "texts_ok abi (\<lambda>i. if nulls ! i then [] else host_string m offsets allocation (off + i)) n enc"
    by (rule tae_layout.encode_host_column_ok [OF assms(1) enc]) (use nulls strings in simp)
  then have len: "length (cv_data col) = n * 24" and d: "descriptor_ok abi (cv_area col) (descriptor abi (cv_data col) row)"
      "text_of abi (cv_area col) (descriptor abi (cv_data col) row) = host_string m offsets allocation (off + row)"
    using row view tae_layout.varlena_size [OF assms(1)] by (auto simp: texts_ok_def view_of_def)
  have "(row + 1) * 24 \<le> length (cv_data col)" using row(1) len by (simp add: Suc_le_eq)
  from tae_layout.fill_text_text_of [OF assms(1) d(1) this, where is_null = is_null] d(2) row(3) show ?thesis by simp
qed

text \<open>
  C34: A result payload that the host encoder produces for a row range is accepted by the native
  batch decoder with that number of rows; every column comes back with the encoded data, area and
  null bitmap, and reading a non-null text row through the scan gives back the bytes of the string
  in the Sirius host table. The hypotheses say that the decoder is given a schema of matching
  types and that there are between 1 and 2^31-1 columns.
\<close>

theorem result_batch_roundtrip:
  assumes "tae_layout abi" and "en_gpu en = None" and "en_host en = Some t"
    and "encode abi fl gpu en off n = Inr payload"
    and "0 < length (ht_columns t)" and "length (ht_columns t) < 2 ^ 31"
    and "length (sch_columns (en_schema en)) = length (ht_columns t)"
    and "length (ns_names named) = length (ht_columns t)" and "length (ns_types named) = length (ht_columns t)"
    and "\<And>i. i < length (ht_columns t) \<Longrightarrow>
      substrait_matches_mo abi (ns_types named ! i) (result_mo_type abi (sch_columns (en_schema en) ! i)) \<and>
      unat (col_oid (sch_columns (en_schema en) ! i)) < 256"
  shows "\<exists>view. new_native_batch_view abi frame \<lparr>nf_sequence = sq, nf_payload = payload\<rparr> named = Inr view \<and> unat (bv_rows view) = n \<and>
    (\<forall>i < length (ht_columns t). \<exists>nulls enc.
       read_nulls (ht_columns t ! i) (ht_allocation t) off n (col_not_nullable (sch_columns (en_schema en) ! i)) = Inr nulls \<and>
       encode_host_column abi fl (ht_columns t ! i) (ht_allocation t) off n (sch_columns (en_schema en) ! i) = Inr enc \<and>
       view_of abi n (sch_columns (en_schema en) ! i) nulls enc (bv_columns view ! i) \<and>
       (\<forall>offsets row is_null. is_text abi (col_oid (sch_columns (en_schema en) ! i)) \<and> cm_children (ht_columns t ! i) = [offsets] \<and>
          row < n \<and> \<not> nulls ! row \<and> \<not> is_null (bv_columns view ! i) row \<longrightarrow>
          fill_text abi is_null (bv_columns view ! i) row =
            Inr (Str (host_string (ht_columns t ! i) offsets (ht_allocation t) (off + row)))))"
proof -
  let ?k = "length (ht_columns t)" and ?c = "\<lambda>i. sch_columns (en_schema en) ! i" and ?m = "\<lambda>i. ht_columns t ! i"
  let ?nulls = "\<lambda>i. projr (read_nulls (?m i) (ht_allocation t) off n (col_not_nullable (?c i)))"
  from assms(2-4) obtain encs where
    encs: "mapR (\<lambda>i. encode_host_column abi fl (?m i) (ht_allocation t) off n (?c i)) [0..<?k] = Inr encs"
    and asm: "assemble_native_batch abi n (en_schema en) encs = Inr payload" and n: "0 < n"
    by (auto simp: encode_def bad_row_range_def split: if_split_asm)
  have k: "length encs = ?k" using mapR_length [OF encs] by simp
  have enc: "encode_host_column abi fl (?m i) (ht_allocation t) off n (?c i) = Inr (encs ! i)" if "i < ?k" for i
    using mapR_nth [OF encs, of i] that by simp
  have nulls: "read_nulls (?m i) (ht_allocation t) off n (col_not_nullable (?c i)) = Inr (?nulls i) \<and>
      encoded_ok abi n (?c i) (?nulls i) (encs ! i)" if "i < ?k" for i
    by (rule tae_layout.encode_host_column_ok [OF assms(1) enc [OF that]]) simp
  have "\<exists>view. new_native_batch_view abi frame \<lparr>nf_sequence = sq, nf_payload = payload\<rparr> named = Inr view \<and> unat (bv_rows view) = n \<and>
      length (bv_columns view) = length encs \<and> (\<forall>i < length encs. view_of abi n (?c i) (?nulls i) (encs ! i) (bv_columns view ! i))"
    by (rule tae_layout.parse_assembled_batch [OF assms(1) asm n]) (use assms(5-10) k nulls in auto)
  then obtain view where view: "new_native_batch_view abi frame \<lparr>nf_sequence = sq, nf_payload = payload\<rparr> named = Inr view"
    "unat (bv_rows view) = n" "\<And>i. i < ?k \<Longrightarrow> view_of abi n (?c i) (?nulls i) (encs ! i) (bv_columns view ! i)"
    unfolding k by blast
  show ?thesis
  proof (intro exI [of _ view] conjI allI impI view(1,2))
    fix i assume i: "i < ?k"
    note scanned = host_text_scanned [OF assms(1) enc [OF i] nulls [OF i, THEN conjunct1] view(3) [OF i]]
    show "\<exists>nulls enc. read_nulls (?m i) (ht_allocation t) off n (col_not_nullable (?c i)) = Inr nulls \<and>
       encode_host_column abi fl (?m i) (ht_allocation t) off n (?c i) = Inr enc \<and> view_of abi n (?c i) nulls enc (bv_columns view ! i) \<and>
       (\<forall>offsets row is_null. is_text abi (col_oid (?c i)) \<and> cm_children (?m i) = [offsets] \<and>
          row < n \<and> \<not> nulls ! row \<and> \<not> is_null (bv_columns view ! i) row \<longrightarrow>
          fill_text abi is_null (bv_columns view ! i) row = Inr (Str (host_string (?m i) offsets (ht_allocation t) (off + row))))"
      using enc [OF i] nulls [OF i] view(3) [OF i] scanned by (intro exI [of _ "?nulls i"] exI [of _ "encs ! i"]) simp
  qed
qed

definition demo_named :: named_struct where
  "demo_named = \<lparr>ns_names = [[97]], ns_has_struct = True, ns_types = [KVarchar]\<rparr>"

theorem result_batch_roundtrip_witness:
  "\<exists>payload view. encode design_abi demo_float demo_gpu demo_encoder 0 2 = Inr payload \<and>
     new_native_batch_view design_abi [] \<lparr>nf_sequence = 1, nf_payload = payload\<rparr> demo_named = Inr view \<and> unat (bv_rows view) = 2"
proof -
  from demo_encode_eval obtain payload where
    payload: "encode design_abi demo_float demo_gpu demo_encoder 0 2 = Inr payload" unfolding case_Inr_iff by blast
  have "\<exists>view. new_native_batch_view design_abi [] \<lparr>nf_sequence = 1, nf_payload = payload\<rparr> demo_named = Inr view \<and> unat (bv_rows view) = 2"
    using result_batch_roundtrip [OF design.tae_layout_axioms _ _ payload, of demo_host_table demo_named "[]" 1]
    by (auto simp: demo_encoder_def demo_host_table_def demo_result_schema_def demo_named_def result_mo_type_def design_abi_def)
  with payload show ?thesis by blast
qed

end
