(* ===== verification/Config.thy ===== *)
theory Config
  imports Prelude
begin

text \<open>
  The start-up configuration (\<^verbatim>\<open>config.cpp\<close>): integers and the resolver endpoint from the environment, and
  the credential files.  The environment is a map from names to values (\<^verbatim>\<open>getenv\<close>); a file is what
  \<^verbatim>\<open>std::ifstream\<close> answers about it.
\<close>

section \<open>Integers\<close>

text \<open>The integer types that \<^verbatim>\<open>parse_integer\<close> is instantiated at.\<close>

datatype c_integer = C_int | C_uint64

primrec c_min :: "c_integer \<Rightarrow> int" where
  "c_min C_int = - 2147483648"
| "c_min C_uint64 = 0"

primrec c_max :: "c_integer \<Rightarrow> int" where
  "c_max C_int = 2147483647"
| "c_max C_uint64 = 18446744073709551615"

text \<open>\<^verbatim>\<open>std::from_chars\<close> in base ten: a minus sign only for a signed type, then digits; \<open>None\<close> is an error code,
  and otherwise the unread rest is returned too.\<close>

definition from_chars :: "c_integer \<Rightarrow> string \<Rightarrow> (int \<times> string) option" where
  "from_chars T s =
     (let negative = (T = C_int \<and> s \<noteq> [] \<and> hd s = CHR ''-'');
          s1 = (if negative then tl s else s);
          digits = takeWhile is_digit s1;
          v = (if negative then - int (digits_value digits) else int (digits_value digits)) in
      if digits = [] \<or> v < c_min T \<or> v > c_max T then None else Some (v, dropWhile is_digit s1))"

definition parse_integer :: "c_integer \<Rightarrow> string \<Rightarrow> string \<Rightarrow> int \<Rightarrow> int \<Rightarrow> int res" where
  "parse_integer T name s minimum maximum =
     (case from_chars T s of
        Some (parsed, rest) \<Rightarrow>
          if rest \<noteq> [] \<or> parsed < minimum \<or> parsed > maximum
          then Inl (Invalid_argument (name @ '' is outside the accepted range'')) else Inr parsed
      | None \<Rightarrow> Inl (Invalid_argument (name @ '' is outside the accepted range'')))"

type_synonym environment = "string \<Rightarrow> string option"

definition required_env :: "environment \<Rightarrow> string \<Rightarrow> string res" where
  "required_env env name =
     (case env name of
        Some v \<Rightarrow> if v = [] then Inl (Invalid_argument (name @ '' is required'')) else Inr v
      | None \<Rightarrow> Inl (Invalid_argument (name @ '' is required'')))"

definition optional_integer :: "environment \<Rightarrow> c_integer \<Rightarrow> string \<Rightarrow> int \<Rightarrow> int \<Rightarrow> int \<Rightarrow> int res" where
  "optional_integer env T name default_value minimum maximum =
     (case env name of
        Some v \<Rightarrow> if v \<noteq> [] then parse_integer T name v minimum maximum else Inr default_value
      | None \<Rightarrow> Inr default_value)"

section \<open>The endpoint\<close>

record https_endpoint =
  ep_host :: string
  ep_port :: int
  ep_path :: string

text \<open>\<^verbatim>\<open>rfind\<close> of a character, as the part before its last occurrence and the part after it.\<close>

definition split_last :: "char \<Rightarrow> string \<Rightarrow> (string \<times> string) option" where
  "split_last ch s =
     (if ch \<in> set s
      then Some (rev (tl (dropWhile (\<lambda>x. x \<noteq> ch) (rev s))), rev (takeWhile (\<lambda>x. x \<noteq> ch) (rev s)))
      else None)"

definition parse_port :: "string \<Rightarrow> int res" where
  "parse_port s = parse_integer C_int ''MO_SIDECAR_READ_URL port'' s 1 65535"

text \<open>The host and port of an authority; \<open>443\<close> is the default of \<^verbatim>\<open>https_endpoint::port\<close>.\<close>

definition parse_authority :: "string \<Rightarrow> (string \<times> int) res" where
  "parse_authority authority =
     (if hd authority = CHR ''['' then
        if CHR '']'' \<notin> set authority then Inl (Invalid_argument ''MO_SIDECAR_READ_URL has a malformed IPv6 host'')
        else
          let host = takeWhile (\<lambda>x. x \<noteq> CHR '']'') (tl authority);
              after = tl (dropWhile (\<lambda>x. x \<noteq> CHR '']'') authority) in
          if after = [] then Inr (host, 443)
          else if hd after \<noteq> CHR '':'' then Inl (Invalid_argument ''MO_SIDECAR_READ_URL has a malformed authority'')
          else bindR (parse_port (tl after)) (\<lambda>port. Inr (host, port))
      else
        case split_last (CHR '':'') authority of
          None \<Rightarrow> Inr (authority, 443)
        | Some (host, p) \<Rightarrow> bindR (parse_port p) (\<lambda>port. Inr (host, port)))"

definition parse_https_endpoint :: "string \<Rightarrow> https_endpoint res" where
  "parse_https_endpoint url =
     (if take 8 url \<noteq> ''https://'' then Inl (Invalid_argument ''MO_SIDECAR_READ_URL must use https://'')
      else
        let remainder = drop 8 url;
            authority = takeWhile (\<lambda>x. x \<noteq> CHR ''/'') remainder;
            slash = dropWhile (\<lambda>x. x \<noteq> CHR ''/'') remainder;
            path = (if slash = [] then ''/'' else slash) in
        if authority = [] \<or> path = [] \<or> hd path \<noteq> CHR ''/'' \<or> CHR ''#'' \<in> set path
        then Inl (Invalid_argument ''MO_SIDECAR_READ_URL is malformed'')
        else bindR (parse_authority authority) (\<lambda>(host, port).
          if host = [] \<or> CHR ''@'' \<in> set host \<or> CHR ''/'' \<in> set host
          then Inl (Invalid_argument ''MO_SIDECAR_READ_URL host is malformed'')
          else Inr \<lparr>ep_host = host, ep_port = port, ep_path = path\<rparr>))"

section \<open>Credential files\<close>

text \<open>An opened file: where \<^verbatim>\<open>tellg\<close> says its end is, and what \<^verbatim>\<open>read\<close> of that many bytes gives.\<close>

record secret_file =
  sf_end :: int
  sf_read :: "string option"

type_synonym file_system = "string \<Rightarrow> secret_file option"

definition read_secret_file :: "file_system \<Rightarrow> string \<Rightarrow> int \<Rightarrow> string res" where
  "read_secret_file files path max_bytes =
     (case files path of
        None \<Rightarrow> Inl (Runtime_error (''cannot open credential file: '' @ path))
      | Some f \<Rightarrow>
          if sf_end f < 0 \<or> sf_end f > max_bytes
          then Inl (Runtime_error (''credential file exceeds size limit: '' @ path))
          else if sf_end f = 0 then Inl (Runtime_error (''credential file is empty: '' @ path))
          else (case sf_read f of
                  None \<Rightarrow> Inl (Runtime_error (''cannot read credential file: '' @ path))
                | Some contents \<Rightarrow> Inr contents))"

definition check_secret_files :: "file_system \<Rightarrow> string list \<Rightarrow> unit res" where
  "check_secret_files files paths =
     bindR (mapR (\<lambda>path. read_secret_file files path 1048576) paths) (\<lambda>_. Inr ())"

section \<open>The configuration\<close>

record runtime_config =
  rc_flight_host :: string
  rc_flight_port :: int
  rc_flight_cert_path :: string
  rc_flight_key_path :: string
  rc_flight_client_ca_path :: string
  rc_read_endpoint :: https_endpoint
  rc_read_ca_path :: string
  rc_read_client_cert_path :: string
  rc_read_client_key_path :: string
  rc_max_active_tickets :: nat
  rc_max_batch_bytes :: u64
  rc_stream_input_capacity_bytes :: u64
  rc_fatal_shutdown_grace_ms :: u64
  rc_ticket_ttl_ms :: u64

definition load_flight_host :: "environment \<Rightarrow> string" where
  "load_flight_host env =
     (case env ''MO_SIDECAR_FLIGHT_HOST'' of
        Some host \<Rightarrow> if host \<noteq> [] then host else ''0.0.0.0'' | None \<Rightarrow> ''0.0.0.0'')"

definition load_runtime_config :: "environment \<Rightarrow> file_system \<Rightarrow> runtime_config option res" where
  "load_runtime_config env files =
     (case env ''MO_SIDECAR_FLIGHT_PORT'' of
        None \<Rightarrow> Inr None
      | Some port \<Rightarrow>
          if port = [] then Inr None
          else
            bindR (parse_integer C_int ''MO_SIDECAR_FLIGHT_PORT'' port 1 65535) (\<lambda>flight_port.
            bindR (required_env env ''MO_SIDECAR_FLIGHT_CERT'') (\<lambda>cert.
            bindR (required_env env ''MO_SIDECAR_FLIGHT_KEY'') (\<lambda>key.
            bindR (required_env env ''MO_SIDECAR_FLIGHT_CLIENT_CA'') (\<lambda>client_ca.
            bindR (required_env env ''MO_SIDECAR_READ_URL'') (\<lambda>url.
            bindR (parse_https_endpoint url) (\<lambda>endpoint.
            bindR (required_env env ''MO_SIDECAR_READ_CA'') (\<lambda>read_ca.
            bindR (required_env env ''MO_SIDECAR_READ_CLIENT_CERT'') (\<lambda>read_cert.
            bindR (required_env env ''MO_SIDECAR_READ_CLIENT_KEY'') (\<lambda>read_key.
            bindR (optional_integer env C_uint64 ''MO_SIDECAR_MAX_ACTIVE_TICKETS'' 128 1 4096) (\<lambda>tickets.
            bindR (optional_integer env C_uint64 ''MO_SIDECAR_MAX_BATCH_BYTES'' 67108864 65536 1073741824) (\<lambda>batch.
            bindR (optional_integer env C_uint64 ''MO_SIDECAR_STREAM_INPUT_CAPACITY_BYTES'' 2147483648 67108864 1099511627776)
              (\<lambda>capacity.
            bindR (optional_integer env C_uint64 ''MO_SIDECAR_FATAL_SHUTDOWN_GRACE_MS'' 5000 100 60000) (\<lambda>grace.
            bindR (optional_integer env C_uint64 ''MO_SIDECAR_TICKET_TTL_MS'' 900000 1000 1200000) (\<lambda>ttl.
            bindR (check_secret_files files [cert, key, client_ca, read_ca, read_cert, read_key]) (\<lambda>_.
              Inr (Some
                \<lparr>rc_flight_host = load_flight_host env, rc_flight_port = flight_port, rc_flight_cert_path = cert,
                 rc_flight_key_path = key, rc_flight_client_ca_path = client_ca, rc_read_endpoint = endpoint,
                 rc_read_ca_path = read_ca, rc_read_client_cert_path = read_cert, rc_read_client_key_path = read_key,
                 rc_max_active_tickets = nat tickets, rc_max_batch_bytes = of_int batch,
                 rc_stream_input_capacity_bytes = of_int capacity, rc_fatal_shutdown_grace_ms = of_int grace,
                 rc_ticket_ttl_ms = of_int ttl\<rparr>)))))))))))))))))"

section \<open>What an accepted configuration guarantees\<close>

lemma parse_integer_InrD:
  assumes "parse_integer T name s minimum maximum = Inr v"
  shows "minimum \<le> v \<and> v \<le> maximum \<and> from_chars T s = Some (v, [])"
  using assms by (auto simp: parse_integer_def split: option.splits if_splits)

lemma optional_integer_range:
  assumes "optional_integer env T name d minimum maximum = Inr v" and "minimum \<le> d" and "d \<le> maximum"
  shows "minimum \<le> v \<and> v \<le> maximum"
  using assms by (auto simp: optional_integer_def dest: parse_integer_InrD split: option.splits if_splits)

lemma unat_of_int_range:
  assumes "lo \<le> (v :: int)" and "v \<le> hi" and "0 \<le> lo" and "hi < 2 ^ 64"
  shows "unat (of_int v :: u64) = nat v \<and> nat lo \<le> nat v \<and> nat v \<le> nat hi"
proof -
  have "nat v < 2 ^ 64" using assms by (simp add: nat_less_iff)
  then have "unat (of_nat (nat v) :: u64) = nat v" by (rule unat_of_nat_u64)
  moreover have "(of_nat (nat v) :: u64) = of_int v" using assms by simp
  ultimately show ?thesis using assms by (simp add: nat_mono)
qed

lemma load_runtime_config_ranges:
  assumes "load_runtime_config env files = Inr (Some c)"
  shows "1 \<le> rc_flight_port c \<and> rc_flight_port c \<le> 65535 \<and> 1 \<le> rc_max_active_tickets c \<and> rc_max_active_tickets c \<le> 4096 \<and>
    65536 \<le> unat (rc_max_batch_bytes c) \<and> unat (rc_max_batch_bytes c) \<le> 1073741824 \<and>
    67108864 \<le> unat (rc_stream_input_capacity_bytes c) \<and> unat (rc_stream_input_capacity_bytes c) \<le> 1099511627776 \<and>
    1000 \<le> unat (rc_ticket_ttl_ms c) \<and> unat (rc_ticket_ttl_ms c) \<le> 1200000"
proof -
  from assms obtain port flight_port tickets batch capacity ttl where
    parts: "parse_integer C_int ''MO_SIDECAR_FLIGHT_PORT'' port 1 65535 = Inr flight_port"
      "optional_integer env C_uint64 ''MO_SIDECAR_MAX_ACTIVE_TICKETS'' 128 1 4096 = Inr tickets"
      "optional_integer env C_uint64 ''MO_SIDECAR_MAX_BATCH_BYTES'' 67108864 65536 1073741824 = Inr batch"
      "optional_integer env C_uint64 ''MO_SIDECAR_STREAM_INPUT_CAPACITY_BYTES'' 2147483648 67108864 1099511627776 = Inr capacity"
      "optional_integer env C_uint64 ''MO_SIDECAR_TICKET_TTL_MS'' 900000 1000 1200000 = Inr ttl"
    and c: "rc_flight_port c = flight_port" "rc_max_active_tickets c = nat tickets" "rc_max_batch_bytes c = of_int batch"
      "rc_stream_input_capacity_bytes c = of_int capacity" "rc_ticket_ttl_ms c = of_int ttl"
    unfolding load_runtime_config_def by (auto elim!: bindR_InrE split: option.splits if_split_asm)
  note port = parse_integer_InrD [OF parts(1)]
  have range: "1 \<le> tickets \<and> tickets \<le> 4096" "65536 \<le> batch \<and> batch \<le> 1073741824"
      "67108864 \<le> capacity \<and> capacity \<le> 1099511627776" "1000 \<le> ttl \<and> ttl \<le> 1200000"
    using parts(2-5) [THEN optional_integer_range] by simp_all
  moreover from range(1) have "1 \<le> nat tickets \<and> nat tickets \<le> 4096" by auto
  ultimately show ?thesis
    using port unat_of_int_range [of 65536 batch 1073741824] unat_of_int_range [of 67108864 capacity 1099511627776]
      unat_of_int_range [of 1000 ttl 1200000]
    by (simp add: c)
qed

section \<open>Printing an endpoint\<close>

text \<open>The reference printer: the port in decimal, and brackets around a host with a colon.\<close>

definition digit_char :: "nat \<Rightarrow> char" where
  "digit_char d = char_of (48 + d)"

fun decimal :: "nat \<Rightarrow> string" where
  "decimal n = (if n < 10 then [digit_char n] else decimal (n div 10) @ [digit_char (n mod 10)])"

declare decimal.simps [simp del]

definition print_authority :: "https_endpoint \<Rightarrow> string" where
  "print_authority e =
     (if CHR '':'' \<in> set (ep_host e) then CHR ''['' # ep_host e @ '']'' else ep_host e) @
     CHR '':'' # decimal (nat (ep_port e))"

definition print_endpoint :: "https_endpoint \<Rightarrow> string" where
  "print_endpoint e = ''https://'' @ print_authority e @ ep_path e"

definition endpoint_ok :: "https_endpoint \<Rightarrow> bool" where
  "endpoint_ok e \<longleftrightarrow>
     ep_host e \<noteq> [] \<and> CHR ''@'' \<notin> set (ep_host e) \<and> CHR ''/'' \<notin> set (ep_host e) \<and>
     1 \<le> ep_port e \<and> ep_port e \<le> 65535 \<and> ep_path e \<noteq> [] \<and> hd (ep_path e) = CHR ''/'' \<and> CHR ''#'' \<notin> set (ep_path e)"

lemma of_digit_char: "d < 10 \<Longrightarrow> (of_char (digit_char d) :: nat) = 48 + d"
  by (simp add: digit_char_def)

lemma digits_value_snoc: "digits_value (ds @ [c]) = digits_value ds * 10 + (of_char c - 48)"
  by (simp add: digits_value_def)

lemma decimal_digits: "list_all is_digit (decimal n) \<and> decimal n \<noteq> [] \<and> digits_value (decimal n) = n"
proof (induction n rule: decimal.induct)
  case (1 n)
  show ?case
  proof (cases "n < 10")
    case True
    then show ?thesis by (simp add: decimal.simps [of n] is_digit_def of_digit_char digits_value_def)
  next
    case False
    have "n mod 10 < 10" by simp
    with False 1 show ?thesis
      by (simp add: decimal.simps [of n] digits_value_snoc is_digit_def of_digit_char)
  qed
qed

lemma decimal_no_sign: "ch \<in> set (decimal n) \<Longrightarrow> ch \<noteq> CHR ''-'' \<and> ch \<noteq> CHR ''/'' \<and> ch \<noteq> CHR '':''"
  using decimal_digits [of n] by (auto simp: list_all_iff is_digit_def)

lemma takeWhile_all: "list_all P xs \<Longrightarrow> takeWhile P xs = xs \<and> dropWhile P xs = []"
  by (simp add: list_all_iff takeWhile_eq_all_conv)

lemma parse_port_decimal:
  assumes "1 \<le> p" and "p \<le> 65535"
  shows "parse_port (decimal (nat p)) = Inr p"
proof -
  note d = decimal_digits [of "nat p"]
  have "hd (decimal (nat p)) \<noteq> CHR ''-''" using d decimal_no_sign hd_in_set by blast
  then have "from_chars C_int (decimal (nat p)) = Some (p, [])"
    using assms d by (simp add: from_chars_def takeWhile_all Let_def)
  then show ?thesis using assms by (simp add: parse_port_def parse_integer_def)
qed

lemma takeWhile_stop:
  "x \<notin> set a \<Longrightarrow> takeWhile (\<lambda>y. y \<noteq> x) (a @ x # b) = a \<and> dropWhile (\<lambda>y. y \<noteq> x) (a @ x # b) = x # b"
  by (induction a) auto

lemma split_last_append: "ch \<notin> set b \<Longrightarrow> split_last ch (a @ ch # b) = Some (a, b)"
  using takeWhile_stop [of ch "rev b" "rev a"] by (simp add: split_last_def)

lemma parse_print_authority:
  assumes "endpoint_ok e" and "hd (ep_host e) \<noteq> CHR ''[''" and "CHR '']'' \<notin> set (ep_host e)"
  shows "parse_authority (print_authority e) = Inr (ep_host e, ep_port e)"
proof (cases "CHR '':'' \<in> set (ep_host e)")
  case True
  let ?p = "CHR '':'' # decimal (nat (ep_port e))"
  have "takeWhile (\<lambda>x. x \<noteq> CHR '']'') (ep_host e @ CHR '']'' # ?p) = ep_host e"
    "dropWhile (\<lambda>x. x \<noteq> CHR '']'') (ep_host e @ CHR '']'' # ?p) = CHR '']'' # ?p"
    using takeWhile_stop [OF assms(3)] by simp_all
  then show ?thesis
    using True assms(1) by (simp add: parse_authority_def print_authority_def parse_port_decimal endpoint_ok_def Let_def)
next
  case False
  have "split_last (CHR '':'') (ep_host e @ CHR '':'' # decimal (nat (ep_port e))) = Some (ep_host e, decimal (nat (ep_port e)))"
    using decimal_no_sign by (intro split_last_append) blast
  then show ?thesis
    using False assms(1,2) by (simp add: parse_authority_def print_authority_def parse_port_decimal endpoint_ok_def)
qed

lemma parse_print_endpoint:
  assumes "endpoint_ok e" and "hd (ep_host e) \<noteq> CHR ''[''" and "CHR '']'' \<notin> set (ep_host e)"
  shows "parse_https_endpoint (print_endpoint e) = Inr e"
proof -
  obtain rest where path: "ep_path e = CHR ''/'' # rest" using assms(1) by (cases "ep_path e") (auto simp: endpoint_ok_def)
  have "CHR ''/'' \<notin> set (print_authority e)"
    using assms(1) decimal_no_sign by (auto simp: print_authority_def endpoint_ok_def)
  then have split: "takeWhile (\<lambda>x. x \<noteq> CHR ''/'') (print_authority e @ ep_path e) = print_authority e"
      "dropWhile (\<lambda>x. x \<noteq> CHR ''/'') (print_authority e @ ep_path e) = ep_path e"
    unfolding path using takeWhile_stop [of "CHR ''/''" "print_authority e" rest] by simp_all
  have "print_authority e \<noteq> []" by (simp add: print_authority_def)
  then show ?thesis
    using assms(1) parse_print_authority [OF assms] split
    by (simp add: parse_https_endpoint_def print_endpoint_def endpoint_ok_def Let_def)
qed

lemma parse_authority_port:
  assumes "parse_authority authority = Inr (host, port)"
  shows "1 \<le> port \<and> port \<le> 65535"
  using assms
  by (auto simp: parse_authority_def parse_port_def Let_def dest: parse_integer_InrD split: if_split_asm option.split_asm)

lemma parse_https_endpoint_ok:
  assumes "parse_https_endpoint url = Inr e"
  shows "endpoint_ok e \<and> (\<exists>rest. url = ''https://'' @ rest)"
proof -
  let ?rest = "drop 8 url"
  let ?slash = "dropWhile (\<lambda>x. x \<noteq> CHR ''/'') ?rest"
  let ?path = "if ?slash = [] then ''/'' else ?slash"
  have prefix: "take 8 url = ''https://''" using assms by (simp add: parse_https_endpoint_def split: if_split_asm)
  have shape: "?path \<noteq> [] \<and> hd ?path = CHR ''/'' \<and> CHR ''#'' \<notin> set ?path"
    using assms unfolding parse_https_endpoint_def Let_def by (simp only: split: if_split_asm) simp_all
  obtain host port where authority: "parse_authority (takeWhile (\<lambda>x. x \<noteq> CHR ''/'') ?rest) = Inr (host, port)"
    and host: "\<not> (host = [] \<or> CHR ''@'' \<in> set host \<or> CHR ''/'' \<in> set host)"
    and e: "e = \<lparr>ep_host = host, ep_port = port, ep_path = ?path\<rparr>"
    using assms unfolding parse_https_endpoint_def Let_def
    by (simp only: prefix split: if_split_asm) (auto elim!: bindR_InrE split: if_split_asm)
  have "endpoint_ok e" unfolding e endpoint_ok_def using shape host parse_authority_port [OF authority] by simp
  moreover have "url = ''https://'' @ ?rest" using prefix by (metis append_take_drop_id)
  ultimately show ?thesis by blast
qed

text \<open>
  C40: Parsing a printed endpoint (IPv6 hosts in brackets, decimal port) gives the endpoint back,
  and every URL that is accepted starts with https:// and yields a non-empty host without @ and
  slash, a port from 1 to 65535 and an absolute path without fragment.
\<close>

theorem parse_https_endpoint_roundtrip:
  "(endpoint_ok e \<and> hd (ep_host e) \<noteq> CHR ''['' \<and> CHR '']'' \<notin> set (ep_host e) \<longrightarrow>
      parse_https_endpoint (print_endpoint e) = Inr e) \<and>
   (parse_https_endpoint url = Inr f \<longrightarrow> endpoint_ok f \<and> (\<exists>rest. url = ''https://'' @ rest))"
  using parse_print_endpoint parse_https_endpoint_ok by blast

definition demo_endpoint :: https_endpoint where
  "demo_endpoint = \<lparr>ep_host = ''::1'', ep_port = 6060, ep_path = ''/read''\<rparr>"

theorem parse_https_endpoint_roundtrip_witness:
  "parse_https_endpoint ''https://[::1]:6060/read'' = Inr demo_endpoint"
proof -
  have "endpoint_ok demo_endpoint \<and> hd (ep_host demo_endpoint) \<noteq> CHR ''['' \<and> CHR '']'' \<notin> set (ep_host demo_endpoint)"
    by (simp add: demo_endpoint_def endpoint_ok_def)
  moreover have "print_endpoint demo_endpoint = ''https://[::1]:6060/read''"
    by (simp add: print_endpoint_def print_authority_def demo_endpoint_def decimal.simps digit_char_def char_of_def bit_Suc_0_iff)
  ultimately show ?thesis using parse_https_endpoint_roundtrip [of demo_endpoint] by simp
qed

end
