(* ===== verification/Flight_Server.thy ===== *)
theory Flight_Server
  imports Ticket_Registry Config
begin

text \<open>
  The Flight methods of \<^verbatim>\<open>flight_runtime.cpp\<close> (class \<^verbatim>\<open>sidecar_flight_server\<close>): the checks of \<^verbatim>\<open>GetFlightInfo\<close>,
  the claim of \<^verbatim>\<open>DoGet\<close>, the upload loop of \<^verbatim>\<open>DoPut\<close> and the cancellation of \<^verbatim>\<open>DoAction\<close>.  What Arrow hands in
  (descriptors, messages, the outcome of a write) and the answers of blocking calls are arguments;
  \<open>show_status\<close> is \<^verbatim>\<open>arrow::Status::ToString\<close>.
\<close>

section \<open>GetFlightInfo\<close>

definition flight_error :: "flight_code \<Rightarrow> string \<Rightarrow> string \<Rightarrow> arrow_status" where
  "flight_error code m extra = St_Flight code m extra"

text \<open>The \<^verbatim>\<open>catch\<close> clauses at the end of \<^verbatim>\<open>GetFlightInfo\<close>.\<close>

definition info_caught :: "exn \<Rightarrow> arrow_status" where
  "info_caught x =
     (case x of
        Substrait_error c m \<Rightarrow> substrait_error c m
      | Invalid_argument m \<Rightarrow> St_Invalid m
      | _ \<Rightarrow> flight_error F_Internal (''cannot prepare sidecar execution: '' @ exn_what x) '''')"

text \<open>The checks after parsing, up to the call of \<^verbatim>\<open>prepare\<close>.  The deadline is clamped to the ticket lifetime.\<close>

definition check_limits :: "runtime_config \<Rightarrow> u64 \<Rightarrow> execute_request \<Rightarrow> execute_request arrow_result" where
  "check_limits config now request =
     (if er_max_batch_bytes request = 0 \<or> er_max_batch_bytes request > rc_max_batch_bytes config
      then Inl (St_Invalid ''max_batch_bytes exceeds the sidecar limit'')
      else if er_max_input_batch_bytes request = 0 \<or> er_max_input_batch_bytes request > k_max_stream_input_batch_bytes \<or>
              er_max_input_batch_bytes request > rc_max_batch_bytes config
      then Inl (St_Invalid ''max_input_batch_bytes exceeds the sidecar limit'')
      else if er_deadline_unix_ms request \<le> now
      then Inl (flight_error F_TimedOut ''execution deadline already expired'' '''')
      else
        let maximum_deadline = now + rc_ticket_ttl_ms config in
        Inr (if er_deadline_unix_ms request > maximum_deadline
             then request\<lparr>er_deadline_unix_ms := maximum_deadline\<rparr> else request))"

definition get_flight_info_request ::
  "(bytes \<Rightarrow> evp_result) \<Rightarrow> runtime_config \<Rightarrow> u64 \<Rightarrow> bytes \<Rightarrow> execute_request arrow_result res" where
  "get_flight_info_request evp config now cmd =
     bindR (parse_execute_request cmd) (\<lambda>request.
     bindR (execution_idempotency_key evp (er_account_id request) (er_query_id request)) (\<lambda>key.
       if er_idempotency_key request \<noteq> key
       then Inr (Inl (flight_error F_Unauthorized ''ExecuteSubstrait idempotency key does not match its identity''
                        ''AUTHENTICATION_FAILED''))
       else
         bindR (sha256_bytes evp cmd) (\<lambda>fingerprint.
           let request = request\<lparr>er_fingerprint := fingerprint\<rparr> in
           if er_protocol_version request \<noteq> k_protocol_version \<or> er_substrait_version request \<noteq> k_substrait_version
           then Inr (Inl (flight_error F_Failed ''unsupported sidecar or Substrait protocol version'' ''UNSUPPORTED_VERSION''))
           else
             bindR (capability_hash evp) (\<lambda>hash.
               if er_capability_hash request \<noteq> hash
               then Inr (Inl (flight_error F_Failed ''sidecar capability hash mismatch'' ''CAPABILITY_MISMATCH''))
               else Inr (check_limits config now request)))))"

text \<open>The method up to \<^verbatim>\<open>registry_.prepare(request)\<close>: a status for the client, or the request that is prepared.\<close>

definition get_flight_info_begin ::
  "(bytes \<Rightarrow> evp_result) \<Rightarrow> runtime_config \<Rightarrow> ticket_registry \<Rightarrow> bool \<Rightarrow> u64 \<Rightarrow> bytes \<Rightarrow> execute_request arrow_result" where
  "get_flight_info_begin evp config r is_command now cmd =
     (if \<not> gpu_healthy r then Inl gpu_status
      else if \<not> is_command then Inl (St_Invalid ''ExecuteSubstrait requires a command descriptor'')
      else case get_flight_info_request evp config now cmd of Inl x \<Rightarrow> Inl (info_caught x) | Inr result \<Rightarrow> result)"

text \<open>The method after \<^verbatim>\<open>prepare\<close> returned the entry: a cancelled call cancels it, any other one gets its ticket.\<close>

definition get_flight_info_end :: "execution_entry \<Rightarrow> bool \<Rightarrow> execution_entry \<times> bytes arrow_result" where
  "get_flight_info_end e call_cancelled =
     (if call_cancelled
      then (fst (ee_cancel False e), Inl (flight_error F_Cancelled ''request cancelled during schema delivery'' ''''))
      else (e, Inr (ee_ticket e)))"

section \<open>DoGet\<close>

text \<open>The stream is constructed with the claimed entry, and its constructor starts the worker; the flag is that of \<open>ee_start\<close>.\<close>

definition do_get :: "ticket_registry \<Rightarrow> bytes \<Rightarrow> ticket_registry \<times> (execution_entry \<times> bool) arrow_result" where
  "do_get r ticket =
     (if \<not> gpu_healthy r then (r, Inl gpu_status)
      else
        case tk_claim r ticket of
          (r', None) \<Rightarrow> (r', Inl (St_KeyError ''unknown, expired, or already claimed ticket''))
        | (r', Some e) \<Rightarrow> (r'\<lparr>tk_entries := (tk_entries r')(ticket \<mapsto> fst (ee_start e))\<rparr>, Inr (ee_start e)))"

text \<open>\<^verbatim>\<open>Close\<close> of the stream cancels the execution once.\<close>

definition stream_close :: "bool \<Rightarrow> execution_entry \<Rightarrow> bool \<times> execution_entry" where
  "stream_close closed e = (if closed then (True, e) else (True, fst (ee_cancel False e)))"

section \<open>DoPut\<close>

record upload_chunk =
  uc_data :: bool
  uc_app_metadata :: "bytes option"

text \<open>One round of the upload loop: what the reader gave, what the call on the input came to (an exception, a
  status or an acknowledgement), and what the writer answered.\<close>

record put_round =
  pr_next :: "upload_chunk arrow_result"
  pr_call :: "upload_input_ack arrow_result res"
  pr_write :: arrow_status

text \<open>How the handler leaves: by a return, before which it may have failed the input, or by an exception that is
  caught after the guard has detached.\<close>

datatype put_end = Put_returns "string option" arrow_status | Put_caught string arrow_status

definition put_fails :: "string \<Rightarrow> arrow_status \<Rightarrow> put_end" where
  "put_fails err st = Put_returns (Some err) st"

definition put_throws :: "exn \<Rightarrow> put_end" where
  "put_throws x =
     Put_caught (exn_what x)
       (case x of Invalid_argument m \<Rightarrow> St_Invalid m
        | _ \<Rightarrow> flight_error F_Internal (''native input upload failed: '' @ exn_what x) '''')"

definition put_ready :: "(arrow_status \<Rightarrow> string) \<Rightarrow> arrow_status \<Rightarrow> put_end option" where
  "put_ready show_status written = (if written = St_OK then None else Some (put_fails (show_status written) written))"

text \<open>\<open>None\<close> means that the loop goes on.\<close>

definition put_frame_round :: "(arrow_status \<Rightarrow> string) \<Rightarrow> u64 \<Rightarrow> put_round \<Rightarrow> bytes \<Rightarrow> put_end option" where
  "put_frame_round show_status limit p frame =
     (if of_nat (length frame) > limit + of_nat k_native_batch_frame_header_bytes
      then Some (put_fails ''MO native input frame exceeds the negotiated limit''
                   (St_Invalid ''MO native input frame exceeds the negotiated limit''))
      else
        case pr_call p of
          Inl x \<Rightarrow> Some (put_throws x)
        | Inr (Inl st) \<Rightarrow> Some (put_fails (show_status st) st)
        | Inr (Inr ack) \<Rightarrow>
            if pr_write p \<noteq> St_OK then Some (put_fails (show_status (pr_write p)) (pr_write p))
            else if ack_complete ack then Some (Put_returns None St_OK) else None)"

definition put_loop_round :: "(arrow_status \<Rightarrow> string) \<Rightarrow> u64 \<Rightarrow> put_round \<Rightarrow> put_end option" where
  "put_loop_round show_status limit p =
     (case pr_next p of
        Inl st \<Rightarrow> Some (put_fails (show_status st) st)
      | Inr chunk \<Rightarrow>
          if \<not> uc_data chunk \<and> uc_app_metadata chunk = None
          then
            (case pr_call p of
               Inl x \<Rightarrow> Some (put_throws x)
             | Inr (Inl st) \<Rightarrow> Some (put_fails (show_status st) st)
             | Inr (Inr ack) \<Rightarrow> Some (Put_returns None (pr_write p)))
          else
            (case (uc_data chunk, uc_app_metadata chunk) of
               (False, Some frame) \<Rightarrow> put_frame_round show_status limit p frame
             | _ \<Rightarrow> Some (put_fails ''UploadInput accepts MO-native metadata frames only''
                           (St_Invalid ''UploadInput accepts MO-native metadata frames only''))))"

text \<open>The loop over the rounds that happen; \<open>None\<close> is a handler that is still in it.\<close>

fun put_loop :: "(arrow_status \<Rightarrow> string) \<Rightarrow> u64 \<Rightarrow> put_round list \<Rightarrow> put_end option" where
  "put_loop show_status limit [] = None"
| "put_loop show_status limit (p # ps) =
     (case put_loop_round show_status limit p of None \<Rightarrow> put_loop show_status limit ps | Some x \<Rightarrow> Some x)"

text \<open>The method from the guard on: the first acknowledgement says that the input is ready.\<close>

definition put_run :: "(arrow_status \<Rightarrow> string) \<Rightarrow> u64 \<Rightarrow> arrow_status \<Rightarrow> put_round list \<Rightarrow> put_end option" where
  "put_run show_status limit written rounds =
     (case put_ready show_status written of None \<Rightarrow> put_loop show_status limit rounds | Some x \<Rightarrow> Some x)"

text \<open>Leaving the method: on a return \<^verbatim>\<open>fail_input\<close> comes before the guard detaches, on an exception after it.\<close>

definition put_leave :: "execution_entry \<Rightarrow> bytes \<Rightarrow> put_end \<Rightarrow> execution_entry" where
  "put_leave e stream_ref x =
     (case x of
        Put_returns None st \<Rightarrow> fst (detach_input e stream_ref)
      | Put_returns (Some err) st \<Rightarrow> fst (detach_input (fst (fail_input err e)) stream_ref)
      | Put_caught err st \<Rightarrow> fst (fail_input err (fst (detach_input e stream_ref))))"

text \<open>The method up to the guard: the ticket and the stream whose input is attached now, or a status.\<close>

definition do_put_begin ::
  "ticket_registry \<Rightarrow> bool \<Rightarrow> bytes \<Rightarrow> ticket_registry \<times> (upload_input_request \<times> execution_entry) arrow_result" where
  "do_put_begin r is_command cmd =
     (if \<not> gpu_healthy r then (r, Inl gpu_status)
      else if \<not> is_command then (r, Inl (St_Invalid ''UploadInput requires a command descriptor''))
      else
        case parse_upload_input_request cmd of
          Inl x \<Rightarrow> (r, Inl (case x of Invalid_argument m \<Rightarrow> St_Invalid m
                    | _ \<Rightarrow> flight_error F_Internal (''native input upload failed: '' @ exn_what x) ''''))
        | Inr request \<Rightarrow>
            (case tk_lookup r (ur_ticket request) of
               None \<Rightarrow> (r, Inl (St_KeyError ''unknown or expired sidecar execution ticket''))
             | Some e \<Rightarrow>
                 (case attach_input e (ur_stream_ref request) of (e', st) \<Rightarrow>
                    (r\<lparr>tk_entries := (tk_entries r)(ur_ticket request \<mapsto> e')\<rparr>,
                     if st = St_OK then Inr (request, e') else Inl st))))"

section \<open>DoAction\<close>

datatype cancel_result = QUIESCED | NOT_FOUND | DEADLINE_EXCEEDED

datatype action_target = By_ticket bytes | By_key bytes

datatype action_step = Action_result bytes | Action_cancel action_target

text \<open>The method before the registry is asked.  Only \<^verbatim>\<open>std::invalid_argument\<close> is caught.\<close>

definition do_action_begin :: "ticket_registry \<Rightarrow> string \<Rightarrow> bytes option \<Rightarrow> action_step arrow_result res" where
  "do_action_begin r action_type body =
     (if action_type = ''GetCapabilities'' then
        if \<not> gpu_healthy r then Inr (Inl gpu_status)
        else if body \<noteq> None \<and> body \<noteq> Some [] then Inr (Inl (St_Invalid ''GetCapabilities body must be empty''))
        else Inr (Inr (Action_result capability_document))
      else if action_type = ''CancelExecution'' then
        (case body of
           None \<Rightarrow> Inr (Inl (St_Invalid ''CancelExecution body is required''))
         | Some bs \<Rightarrow>
             (case parse_cancel_request bs of
                Inl (Invalid_argument m) \<Rightarrow> Inr (Inl (St_Invalid m))
              | Inl x \<Rightarrow> Inl x
              | Inr q \<Rightarrow> Inr (Inr (Action_cancel
                    (if cr_ticket q = [] then By_key (cr_idempotency_key q) else By_ticket (cr_ticket q))))))
      else Inr (Inl (St_NotImplemented (''unknown sidecar action: '' @ action_type))))"

text \<open>The method after the cancellation.\<close>

definition do_action_end :: "cancel_result \<Rightarrow> bytes arrow_result" where
  "do_action_end c =
     (if c = DEADLINE_EXCEEDED
      then Inl (flight_error F_TimedOut ''sidecar execution did not quiesce before its deadline'' ''CANCEL_NOT_QUIESCED'')
      else Inr (bytes_of (if c = QUIESCED then ''quiesced'' else ''not-found'')))"

end
