(* ===== verification/Flight_Server_Correct.thy ===== *)
theory Flight_Server_Correct
  imports Flight_Server Protocol_Correct Admission Stream_Input_Correct
begin

text \<open>
  Properties that span the Flight methods and the components they call: a request that \<^verbatim>\<open>GetFlightInfo\<close> hands to
  the registry is inside the limits that the admission arithmetic relies on, and an upload handler that gives up
  never leaves the scan waiting.
\<close>

section \<open>Requests that reach the registry\<close>

lemma bindR_result_InrE:
  assumes "bindR m f = Inr y"
  obtains x where "m = Inr x" and "f x = Inr y"
  using assms by (cases m) auto

lemma get_flight_info_request_InrD:
  assumes "get_flight_info_request evp config now cmd = Inr (Inr q)"
  obtains p fingerprint where "parse_execute_request cmd = Inr p"
    and "execution_idempotency_key evp (er_account_id p) (er_query_id p) = Inr (er_idempotency_key p)"
    and "sha256_bytes evp cmd = Inr fingerprint"
    and "check_limits config now (p\<lparr>er_fingerprint := fingerprint\<rparr>) = Inr q"
    and "er_protocol_version p = k_protocol_version"
  using assms unfolding get_flight_info_request_def Let_def
  by (auto elim!: bindR_result_InrE split: if_split_asm)

lemma check_limits_InrD:
  assumes "check_limits config now p = Inr q"
  shows "er_max_batch_bytes q \<le> rc_max_batch_bytes config \<and> er_max_input_batch_bytes q \<le> k_max_stream_input_batch_bytes \<and>
    0 < er_max_batch_bytes q \<and> 0 < er_max_input_batch_bytes q \<and>
    er_deadline_unix_ms q = min (er_deadline_unix_ms p) (now + rc_ticket_ttl_ms config) \<and> now < er_deadline_unix_ms p \<and>
    q = p\<lparr>er_deadline_unix_ms := er_deadline_unix_ms q\<rparr>"
  using assms
  by (auto simp: check_limits_def Let_def word_neq_0_conv min_def not_less not_le split: if_split_asm)

lemma unat_add_ttl:
  assumes "unat (now :: u64) + unat ttl < 2 ^ 64"
  shows "unat (now + ttl) = unat now + unat ttl"
  using assms by (simp add: unat_word_ariths)

section \<open>Failing an input\<close>

definition input_awake :: "stream_input \<Rightarrow> bool" where
  "input_awake i \<longleftrightarrow> input_terminal i \<and> si_waiters i = {}"

definition inputs_awake :: "execution_entry \<Rightarrow> bool" where
  "inputs_awake e \<longleftrightarrow> (\<forall>k i. reg_inputs (ee_inputs e) k = Some i \<longrightarrow> input_awake i)"

lemma input_awake_cancel: "input_awake (si_cancel i err)"
  by (auto simp: input_awake_def si_cancel_def input_terminal_def)

lemma inputs_awake_cancel: "inputs_awake (ee_cancel_inputs err e)"
  by (auto simp: inputs_awake_def ee_cancel_inputs_def reg_cancel_all_def input_awake_cancel)

lemma inputs_awake_same: "inputs_awake e \<Longrightarrow> ee_inputs e' = ee_inputs e \<Longrightarrow> inputs_awake e'"
  by (simp add: inputs_awake_def)

lemma inputs_awake_terminate:
  assumes "inputs_awake e"
  shows "inputs_awake (fst (ee_terminate status err e))"
proof -
  have "inputs_awake (fst (maybe_notify_terminal (terminate_end u (ee_cancel_inputs err e1))))" for u e1
    by (rule inputs_awake_same [OF inputs_awake_cancel [of err e1]]) (simp add: maybe_notify_terminal_def terminate_end_def)
  then show ?thesis using assms by (auto simp: ee_terminate_def split: option.splits prod.splits) (metis fst_conv)
qed

lemma inputs_awake_fail: "inputs_awake (fst (fail_input err e))"
  unfolding fail_input_def ee_cancel_def by (intro inputs_awake_terminate inputs_awake_cancel)

lemma input_awake_detach: "input_awake i \<Longrightarrow> input_awake (si_detach i)"
  by (simp add: input_awake_def si_detach_def input_terminal_def)

lemma inputs_awake_detach: "inputs_awake e \<Longrightarrow> inputs_awake (fst (detach_input e ref))"
proof -
  assume "inputs_awake e"
  then have "inputs_awake (detach_input_begin e ref)"
    by (auto simp: inputs_awake_def detach_input_begin_def handler_detached_def intro: input_awake_detach)
  then show ?thesis by (rule inputs_awake_same) (simp add: detach_input_def maybe_notify_terminal_def)
qed

text \<open>A return without a failure follows an acknowledged end.\<close>

lemma put_loop_round_quiet:
  assumes "put_loop_round show_status limit p = Some (Put_returns None st)"
  shows "\<exists>ack. pr_call p = Inr (Inr ack) \<and> (pr_next p = Inr \<lparr>uc_data = False, uc_app_metadata = None\<rparr> \<or> ack_complete ack)"
  using assms
  by (auto simp: put_loop_round_def put_frame_round_def put_fails_def put_throws_def
      split: sum.split_asm if_split_asm option.split_asm bool.split_asm)

lemma put_loop_last:
  "put_loop show_status limit ps = Some x \<Longrightarrow> \<exists>p \<in> set ps. put_loop_round show_status limit p = Some x"
  by (induction ps) (auto split: option.split_asm)

lemma put_run_quiet:
  "put_run show_status limit written ps = Some (Put_returns None st) \<Longrightarrow>
     put_loop show_status limit ps = Some (Put_returns None st)"
  by (auto simp: put_run_def put_ready_def put_fails_def split: option.split_asm if_split_asm)

section \<open>Properties\<close>

text \<open>
  C38: A request that GetFlightInfo hands to the registry, under any configuration that
  load_runtime_config accepts, is inside the limits the admission arithmetic relies on: its charge
  is computed without overflow for up to 16 inputs, its idempotency key is the digest of its
  account and query id, its fingerprint is the digest of the command, its result batches are
  within the configured limit, and its deadline lies after now and at most 20 minutes ahead (for
  clocks that do not overflow when the lifetime is added).
\<close>

theorem flight_info_request_admissible:
  assumes "load_runtime_config env files = Inr (Some config)"
    and "get_flight_info_begin evp config r is_command now cmd = Inr q"
    and "unat now + unat (rc_ticket_ttl_ms config) < 2 ^ 64"
  shows "(\<forall>n \<le> 16. \<exists>c. stream_execution_charge q n = Inr c \<and> unat c < 4294967296) \<and>
    execution_idempotency_key evp (er_account_id q) (er_query_id q) = Inr (er_idempotency_key q) \<and>
    sha256_bytes evp cmd = Inr (er_fingerprint q) \<and>
    0 < unat (er_max_batch_bytes q) \<and> unat (er_max_batch_bytes q) \<le> unat (rc_max_batch_bytes config) \<and>
    unat now < unat (er_deadline_unix_ms q) \<and> unat (er_deadline_unix_ms q) \<le> unat now + 1200000"
proof -
  from assms(2) have "get_flight_info_request evp config now cmd = Inr (Inr q)"
    by (auto simp: get_flight_info_begin_def split: if_split_asm sum.split_asm)
  then obtain p fingerprint where parsed: "parse_execute_request cmd = Inr p"
    and key: "execution_idempotency_key evp (er_account_id p) (er_query_id p) = Inr (er_idempotency_key p)"
    and print: "sha256_bytes evp cmd = Inr fingerprint"
    and check: "check_limits config now (p\<lparr>er_fingerprint := fingerprint\<rparr>) = Inr q"
    by (rule get_flight_info_request_InrD)
  note lim = check_limits_InrD [OF check] and conf = load_runtime_config_ranges [OF assms(1)]
  from lim obtain d where q: "q = p\<lparr>er_fingerprint := fingerprint, er_deadline_unix_ms := d\<rparr>" by auto
  have "length (er_plan p) \<le> k_max_plan_bytes" "length (er_result_schema p) \<le> k_max_native_result_schema_bytes"
    using parse_execute_request_limits [OF parsed] by (simp_all add: execute_bounded_def)
  moreover have "unat (er_max_batch_bytes q) \<le> 1073741824" "unat (er_max_input_batch_bytes q) \<le> 4194304"
    using lim conf by (auto simp: word_le_nat_alt k_max_stream_input_batch_bytes_def)
  ultimately have limits: "charge_limits q"
    by (simp add: charge_limits_def q k_max_plan_bytes_def k_max_native_result_schema_bytes_def)
  have charge: "\<exists>c. stream_execution_charge q n = Inr c \<and> unat c < 4294967296" if "n \<le> 16" for n
    using charge_below_4g [OF limits that] by blast
  have sum: "unat (now + rc_ticket_ttl_ms config) = unat now + unat (rc_ticket_ttl_ms config)"
    by (rule unat_add_ttl [OF assms(3)])
  have "unat now < unat (er_deadline_unix_ms q)" "unat (er_deadline_unix_ms q) \<le> unat now + 1200000"
    using lim conf sum by (auto simp: min_def word_less_nat_alt word_le_nat_alt split: if_split_asm)
  moreover have "0 < unat (er_max_batch_bytes q)" "unat (er_max_batch_bytes q) \<le> unat (rc_max_batch_bytes config)"
    using lim by (auto simp: word_less_nat_alt word_le_nat_alt)
  ultimately show ?thesis using charge key print by (simp add: q)
qed

text \<open>A configuration and a request for it, under a constant digest.\<close>

definition demo_env :: environment where
  "demo_env = map_of
     [(''MO_SIDECAR_FLIGHT_PORT'', ''1''), (''MO_SIDECAR_FLIGHT_CERT'', ''c''), (''MO_SIDECAR_FLIGHT_KEY'', ''k''),
      (''MO_SIDECAR_FLIGHT_CLIENT_CA'', ''a''), (''MO_SIDECAR_READ_URL'', ''https://h/r''), (''MO_SIDECAR_READ_CA'', ''a''),
      (''MO_SIDECAR_READ_CLIENT_CERT'', ''c''), (''MO_SIDECAR_READ_CLIENT_KEY'', ''k'')]"

definition demo_files :: file_system where
  "demo_files = (\<lambda>_. Some \<lparr>sf_end = 1, sf_read = Some ''x''\<rparr>)"

definition demo_config :: runtime_config where
  "demo_config =
     \<lparr>rc_flight_host = ''0.0.0.0'', rc_flight_port = 1, rc_flight_cert_path = ''c'', rc_flight_key_path = ''k'',
      rc_flight_client_ca_path = ''a'', rc_read_endpoint = \<lparr>ep_host = ''h'', ep_port = 443, ep_path = ''/r''\<rparr>,
      rc_read_ca_path = ''a'', rc_read_client_cert_path = ''c'', rc_read_client_key_path = ''k'',
      rc_max_active_tickets = 128, rc_max_batch_bytes = 67108864, rc_stream_input_capacity_bytes = 2147483648,
      rc_fatal_shutdown_grace_ms = 5000, rc_ticket_ttl_ms = 900000\<rparr>"

lemma demo_endpoint_parses: "parse_https_endpoint ''https://h/r'' = Inr \<lparr>ep_host = ''h'', ep_port = 443, ep_path = ''/r''\<rparr>"
  by code_simp

lemma demo_port_parses: "parse_integer C_int ''MO_SIDECAR_FLIGHT_PORT'' ''1'' 1 65535 = Inr 1"
  by code_simp

lemma demo_config_loads: "load_runtime_config demo_env demo_files = Inr (Some demo_config)"
  by (simp add: load_runtime_config_def demo_env_def demo_port_parses required_env_def demo_endpoint_parses
      optional_integer_def check_secret_files_def read_secret_file_def demo_files_def load_flight_host_def demo_config_def)

definition demo_flight_evp :: "bytes \<Rightarrow> evp_result" where
  "demo_flight_evp = (\<lambda>_. Evp_digest (replicate 32 7))"

definition demo_flight_request :: execute_request where
  "demo_flight_request = empty_execute_request
     \<lparr>er_protocol_version := 4, er_substrait_version := k_substrait_version, er_capability_hash := replicate 32 7,
      er_max_batch_bytes := 1000, er_deadline_unix_ms := 2000, er_plan := [1], er_query_id := replicate 16 0,
      er_idempotency_key := replicate 32 7, er_max_input_batch_bytes := 1000, er_result_schema := [1]\<rparr>"

definition demo_cmd :: bytes where
  "demo_cmd = encode_fields (execute_fields demo_flight_request)"

lemma demo_cmd_parses: "parse_execute_request demo_cmd = Inr demo_flight_request"
  unfolding demo_cmd_def
  by (rule parse_execute_fields [OF _ _ _ distinct_execute_fields refl])
    (simp_all add: demo_flight_request_def empty_execute_request_def execute_bounded_def k_defs bytes_of_def)

lemma demo_info:
  "get_flight_info_begin demo_flight_evp demo_config (new_ticket_registry 2147483648) True 1000 demo_cmd =
     Inr (demo_flight_request\<lparr>er_fingerprint := replicate 32 7\<rparr>)"
  by (simp add: get_flight_info_begin_def get_flight_info_request_def demo_cmd_parses execution_idempotency_key_def
      sha256_bytes_def sha256_def demo_flight_evp_def capability_hash_def check_limits_def gpu_healthy_def new_ticket_registry_def
      demo_flight_request_def empty_execute_request_def demo_config_def k_sha256_bytes_def k_protocol_version_def
      k_max_stream_input_batch_bytes_def Let_def)

theorem flight_info_request_admissible_witness:
  "\<exists>c. stream_execution_charge (demo_flight_request\<lparr>er_fingerprint := replicate 32 7\<rparr>) 16 = Inr c \<and> unat c < 4294967296"
  using flight_info_request_admissible [OF demo_config_loads demo_info] by (simp add: demo_config_def)

text \<open>
  C39: An upload handler never leaves a scan waiting: when DoPut leaves after attaching, by a
  return or through an exception, either every input of the execution is cancelled or not needed
  and nobody sleeps on it, or the handler had received the acknowledgement of finish_upload or of
  a batch that completed the input.
\<close>

theorem do_put_never_abandons_the_scan:
  assumes "put_run show_status limit written rounds = Some x"
  shows "inputs_awake (put_leave e ref x) \<or>
    (\<exists>st p ack. x = Put_returns None st \<and> p \<in> set rounds \<and> pr_call p = Inr (Inr ack) \<and>
       (pr_next p = Inr \<lparr>uc_data = False, uc_app_metadata = None\<rparr> \<or> ack_complete ack))"
proof (cases x)
  case (Put_caught err st)
  then show ?thesis using inputs_awake_fail by (simp add: put_leave_def)
next
  case (Put_returns failed st)
  show ?thesis
  proof (cases failed)
    case None
    then have "put_loop show_status limit rounds = Some x" using assms put_run_quiet Put_returns by simp
    from put_loop_last [OF this] obtain p where p: "p \<in> set rounds" "put_loop_round show_status limit p = Some x" by blast
    with Put_returns None put_loop_round_quiet show ?thesis by metis
  next
    case (Some err)
    then show ?thesis using Put_returns inputs_awake_detach [OF inputs_awake_fail] by (simp add: put_leave_def)
  qed
qed

text \<open>A handler whose first frame is refused leaves; the scan that slept on its input is awake.\<close>

definition demo_put_round :: put_round where
  "demo_put_round =
     \<lparr>pr_next = Inr \<lparr>uc_data = False, uc_app_metadata = Some [1]\<rparr>,
      pr_call = Inl (Invalid_argument ''bad frame''), pr_write = St_OK\<rparr>"

definition demo_put_entry :: execution_entry where
  "demo_put_entry = new_execution_entry empty_execute_request [7]
     \<lparr>reg_inputs = [[9] \<mapsto> new_stream_input\<lparr>si_attached := True, si_waiters := {7}\<rparr>], reg_active_handlers = 1\<rparr>"

theorem do_put_never_abandons_the_scan_witness:
  "\<not> inputs_awake demo_put_entry \<and>
   inputs_awake (put_leave demo_put_entry [9] (Put_caught ''bad frame'' (St_Invalid ''bad frame'')))"
proof
  have "put_run (\<lambda>_. []) 1000 St_OK [demo_put_round] = Some (Put_caught ''bad frame'' (St_Invalid ''bad frame''))"
    by (simp add: put_run_def put_ready_def put_loop_round_def put_frame_round_def put_throws_def demo_put_round_def k_native_batch_frame_header_bytes_def)
  from do_put_never_abandons_the_scan [OF this, of demo_put_entry "[9]"]
  show "inputs_awake (put_leave demo_put_entry [9] (Put_caught ''bad frame'' (St_Invalid ''bad frame'')))" by simp
  show "\<not> inputs_awake demo_put_entry"
    by (simp add: inputs_awake_def demo_put_entry_def new_execution_entry_def input_awake_def)
qed

end
