(* ===== verification/Spec2Isabelle.thy ===== *)
theory Spec2Isabelle
  imports Protocol_Correct Admission Native_Batch_Correct Stream_Input_Correct Execution_Entry_Correct
    Ticket_Registry_Correct Native_Result_Correct Result_Correct Config Flight_Server_Correct
begin

text \<open>
  A verification development of the MatrixOne Sirius sidecar (\<^verbatim>\<open>mo-sidecar/\<close>): an Arrow Flight server that
  takes a Substrait plan, runs it on the Sirius GPU engine inside DuckDB, feeds it from uploaded native
  batches and streams native result batches back.

  \<^bold>\<open>Parts of the program and how they interact.\<close>  A client calls \<^verbatim>\<open>GetFlightInfo\<close> with an encoded execute
  request (\<^verbatim>\<open>protocol.cpp\<close>).  The ticket registry (\<^verbatim>\<open>flight_runtime.cpp\<close>) reserves a slot, acquires memory from
  the admission controller (\<^verbatim>\<open>stream_admission.cpp\<close>), builds an execution entry and publishes it under a
  ticket.  \<^verbatim>\<open>DoPut\<close> handlers attach to the stream inputs of the entry and hand over native batches one at a
  time (\<^verbatim>\<open>stream_input.cpp\<close>); the DuckDB scan of the plan drains them.  \<^verbatim>\<open>DoGet\<close> claims the ticket, starts the
  worker and reads result frames; the worker encodes what Sirius produces (\<^verbatim>\<open>native_result.cpp\<close>) in pieces that
  fit the negotiated size.  Cancellation, deadlines, GPU failure and shutdown can come from any thread.

  \<^bold>\<open>Theories.\<close>
  \<^item> \<open>Prelude\<close>: result type \<open>res\<close> (a sum of \<open>exn\<close> and a value) with \<open>bindR\<close>, \<open>mapR\<close>, \<open>foldR\<close>; little-endian
    loads and stores; machine word lemmas.
  \<^item> \<open>Machines\<close>: reachability and the locales \<open>system_invariant\<close>, \<open>latch\<close> and \<open>simulation\<close>.
  \<^item> \<open>Wire\<close>: \<^verbatim>\<open>wire_reader\<close>, \<^verbatim>\<open>expect_field\<close> and the append functions; the locale \<open>wire_message\<close> is the contract
    of a message loop and is interpreted on all six messages.
  \<^item> \<open>Protocol\<close>, \<open>Protocol_Correct\<close>: all parsers and serializers of \<^verbatim>\<open>protocol.cpp\<close>; round trips, bounds,
    canonicity, prefix-freeness, injectivity, exact acceptance of cancel messages.
  \<^item> \<open>Admission\<close>: charge arithmetic, controller and leases; the ledger invariant, exactness, totality.
  \<^item> \<open>Native_Batch\<close>, \<open>Native_Batch_Correct\<close>: the decoder \<^verbatim>\<open>native_batch_view\<close> and \<^verbatim>\<open>fill_column\<close>.  The data layout
    of tae-scanner is the record \<open>tae_abi\<close>; the locale \<open>tae_layout\<close> states what \<^verbatim>\<open>DESIGN.md\<close> documents of it and
    \<open>design_abi\<close> interprets it.  Well-formedness of accepted batches, memory safety of the scan.
  \<^item> \<open>Stream_Input\<close>, \<open>Stream_Input_Correct\<close>: \<^verbatim>\<open>stream_input\<close>, its registry and \<^verbatim>\<open>scan_stream\<close>; one definition per
    critical section, the condition variable as the set of sleeping callers.  Exactly-once hand-over, exact
    acknowledgements, first outcome wins, no lost wake-up, every row emitted once.
  \<^item> \<open>Execution_Entry\<close>, \<open>Execution_Entry_Correct\<close>: class \<^verbatim>\<open>execution_entry\<close> with its worker, reader, cancelling
    threads and upload handlers; complete delivery, first terminal status, safe quiescence, single claim,
    start and callback.
  \<^item> \<open>Ticket_Registry\<close>, \<open>Ticket_Registry_Correct\<close>: class \<^verbatim>\<open>ticket_registry\<close>; capacity, idempotency, refinement of
    the admission ledger (a \<open>simulation\<close>), sealing after a GPU failure.
  \<^item> \<open>Native_Result\<close>, \<open>Native_Result_Correct\<close>: \<^verbatim>\<open>native_result.cpp\<close>; \<open>Consume_Batch\<close>, \<open>Result_Correct\<close>: the splitting
    loop of \<^verbatim>\<open>consume_batch\<close>, and the properties of the result path from host table to decoded batch.
  \<^item> \<open>Config\<close>: \<^verbatim>\<open>config.cpp\<close>; ranges of an accepted configuration, round trip of endpoints.
  \<^item> \<open>Flight_Server\<close>, \<open>Flight_Server_Correct\<close>: the Flight methods around the calls on registry and entries; requests
    that reach the registry satisfy the admission limits, and an upload handler never leaves a scan waiting.

  \<^bold>\<open>Conventions.\<close>  A mutex-protected class is a record; a definition is the code between two points at which
  the lock is given up, and a method with waits is cut there.  Concurrency is an inductive step relation
  (\<open>input_step\<close>, \<open>entry_step\<close>, \<open>admission_step\<close>, \<open>registry_step\<close>) whose steps are these sections by any number of
  threads, with ghost fields for what was placed, delivered, claimed or started.  Exceptions, Arrow statuses
  and undefined behaviour are values.  Counters and sizes of fixed width are words and wrap; container
  lengths are natural numbers.  Time, OpenSSL, Sirius, cuCascade, Arrow's answers, long double
  arithmetic, the environment and the file system are arguments.

  \<^bold>\<open>Bounds and fuel.\<close>  No definition takes fuel: parse loops end because a field consumes bytes, the halving
  loop because \<^verbatim>\<open>encoded_size\<close> refuses empty ranges, the block copy because every round copies at least one
  byte, the scan because every call emits a row.  \<open>scan_run\<close> iterates the scan a given number of times and
  the property states a number that is enough.  Loops that wait are not functions: one round is a step.

  \<^bold>\<open>Simplifications.\<close>  \<^verbatim>\<open>fill_date\<close> subtracts modulo \<open>2 ^ 32\<close>, where the source would overflow a signed
  integer.  \<open>publish_frame\<close> keeps the old sequence number when serialization throws; the worker then only
  unwinds and never publishes again.  \<^verbatim>\<open>join\<close> is only called by other threads than the worker, so the
  self-join test of the source is not modelled.  \<^verbatim>\<open>detach\<close> and the decrement of the handler counter in
  \<^verbatim>\<open>detach_input\<close> are one step.  The layout checks of the native batch constructor are kept as far as they
  depend on a parameter.

  \<^bold>\<open>Not modelled.\<close>  The Arrow payload plumbing of the Flight methods, server start and stop; the read resolver
  (\<^verbatim>\<open>tae_read_resolver.cpp\<close>: HTTP and DuckDB views); the constructor and destructor of the entry (preparation by
  Sirius); the DuckDB extension entry point; deployment files.
\<close>

end
